theory Spec2Isabelle
  imports Main "HOL-Library.Word" "HOL-Library.AList" "HOL-Library.Signed_Division"
begin

section \<open>Numbers and their decimal text\<close>

text \<open>
  The context stores its operation id and its timeout as decimal text, written and read
  with Go's \<^verbatim>\<open>strconv\<close> at base 10 and 64 bits. \<^verbatim>\<open>uint64\<close>, \<^verbatim>\<open>int64\<close> and
  \<^verbatim>\<open>time.Duration\<close> (an \<^verbatim>\<open>int64\<close> of nanoseconds) are 64-bit words; the signed ones
  are read with \<open>sint\<close>.
\<close>

type_synonym uint64 = "64 word"
type_synonym int64 = "64 word"
type_synonym Duration = "64 word"

datatype NumError = ErrSyntax | ErrRange

definition maxUint64 :: nat where
  "maxUint64 = 18446744073709551615"

text \<open>The digit table of \<^verbatim>\<open>strconv\<close>, indexed by the digit's value.\<close>

definition digit_char :: "nat \<Rightarrow> char" where
  "digit_char d = ''0123456789'' ! d"

fun digits10 :: "nat \<Rightarrow> string" where
  "digits10 n = (if n < 10 then [digit_char n] else digits10 (n div 10) @ [digit_char (n mod 10)])"

declare digits10.simps [simp del]

text \<open>\<^verbatim>\<open>strconv.FormatUint(u, 10)\<close> and \<^verbatim>\<open>strconv.FormatInt(i, 10)\<close>.\<close>

definition FormatUint :: "uint64 \<Rightarrow> string" where
  "FormatUint u = digits10 (unat u)"

definition FormatInt :: "int64 \<Rightarrow> string" where
  "FormatInt i = (if sint i < 0 then CHR ''-'' # digits10 (nat (- sint i)) else digits10 (nat (sint i)))"

text \<open>The byte test \<^verbatim>\<open>'0' <= c && c <= '9'\<close> and the digit's value \<^verbatim>\<open>c - '0'\<close>.\<close>

definition is_digit :: "char \<Rightarrow> bool" where
  "is_digit c = (48 \<le> (of_char c :: nat) \<and> (of_char c :: nat) \<le> 57)"

definition digit_val :: "char \<Rightarrow> nat" where
  "digit_val c = of_char c - 48"

text \<open>
  The loop of \<^verbatim>\<open>strconv.ParseUint(s, 10, 64)\<close>: byte by byte, a byte that is no digit is
  a syntax error, a value beyond \<^verbatim>\<open>math.MaxUint64\<close> a range error (reported with the
  value \<^verbatim>\<open>math.MaxUint64\<close>). The accumulator is a natural number so that the overflow
  test reads as what it detects.
\<close>

fun parse_digits :: "nat \<Rightarrow> string \<Rightarrow> NumError + nat" where
  "parse_digits n [] = Inr n"
| "parse_digits n (c # cs) =
     (if \<not> is_digit c then Inl ErrSyntax
      else if maxUint64 < 10 * n + digit_val c then Inl ErrRange
      else parse_digits (10 * n + digit_val c) cs)"

definition ParseUint :: "string \<Rightarrow> NumError + uint64" where
  "ParseUint s = (if s = [] then Inl ErrSyntax
                  else case parse_digits 0 s of Inl e \<Rightarrow> Inl e | Inr n \<Rightarrow> Inr (of_nat n))"

text \<open>
  \<^verbatim>\<open>strconv.ParseInt(s, 10, 64)\<close>: an optional sign, then the unsigned parse; a syntax error
  is passed on, a range error of the unsigned parse leaves \<^verbatim>\<open>un = math.MaxUint64\<close> for the
  cutoff test.
\<close>

definition ParseInt :: "string \<Rightarrow> NumError + int64" where
  "ParseInt s0 =
     (if s0 = [] then Inl ErrSyntax
      else
        let neg = (hd s0 = CHR ''-'');
            s = (if hd s0 = CHR ''+'' \<or> hd s0 = CHR ''-'' then tl s0 else s0);
            r = ParseUint s
        in if r = Inl ErrSyntax then Inl ErrSyntax
           else
             let un = (case r of Inl e \<Rightarrow> (of_nat maxUint64 :: uint64) | Inr u \<Rightarrow> u);
                 cutoff = (2 ^ 63 :: uint64)
             in if \<not> neg \<and> cutoff \<le> un then Inl ErrRange
                else if neg \<and> cutoff < un then Inl ErrRange
                else Inr (if neg then - un else un))"

text \<open>Go's \<^verbatim>\<open>/\<close> on \<^verbatim>\<open>int64\<close> truncates towards zero (the divisors here are constants).\<close>

definition quo :: "int64 \<Rightarrow> int64 \<Rightarrow> int64" where
  "quo a b = word_of_int (sint a sdiv sint b)"

section \<open>Constants\<close>

definition cidHeader :: string where
  "cidHeader = ''_cid''"

definition opIDHeader :: string where
  "opIDHeader = ''_opid''"

definition timeoutHeader :: string where
  "timeoutHeader = ''_timeout''"

definition Millisecond :: Duration where
  "Millisecond = 1000000"

definition Second :: Duration where
  "Second = 1000 * Millisecond"

definition defaultTimeout :: Duration where
  "defaultTimeout = 5 * Second"

section \<open>The process: allocated maps, the op-id counter, the id generator\<close>

text \<open>
  A Go map is a reference: two holders of the same map see each other's writes. The maps
  the program allocates therefore live in a store, addressed by the order of their
  allocation, and a context holds addresses. A map is an association list: \<open>map_of\<close>
  looks a key up, \<open>AList.update\<close> assigns, and a \<^verbatim>\<open>range\<close> loop visits each key once
  with the value a lookup gives (\<open>AList.clearjunk\<close>: the list without shadowed pairs).
  Keys of the ephemeral properties are the comparable values \<open>'k\<close>.

  The package variable \<^verbatim>\<open>nextOpID\<close> is a field of the process. \<^verbatim>\<open>nuid.Next()\<close> belongs
  to another library: the ids it hands out are the sequence \<open>nuid\<close>, of which
  \<open>nuidDrawn\<close> have been taken. The mutex \<^verbatim>\<open>mu\<close> orders concurrent calls; the model
  runs the calls one after the other.

  A context that \<^verbatim>\<open>NewFContext\<close> or \<^verbatim>\<open>Clone\<close> has made holds three maps of the process.
  Reading or writing at an address that is no map of the process has no counterpart in
  Go; the statements that depend on a context's maps being maps of the process say so
  (\<open>allocated\<close> below).
\<close>

type_synonym addr = nat

record ('k, 'v) proc =
  strMaps :: "(string \<times> string) list list"
  propMaps :: "('k \<times> 'v) list list"
  nextOpID :: uint64
  nuid :: "nat \<Rightarrow> string"
  nuidDrawn :: nat

record FContextImpl =
  requestHeaders :: addr
  responseHeaders :: addr
  ephemeralProperties :: addr

datatype ctx_error = MissingHeader string | OpIDNotNonNegative string

definition startProc :: "(nat \<Rightarrow> string) \<Rightarrow> ('k, 'v) proc" where
  "startProc g = \<lparr>strMaps = [], propMaps = [], nextOpID = 0, nuid = g, nuidDrawn = 0\<rparr>"

text \<open>A map literal or \<^verbatim>\<open>make\<close>, \<^verbatim>\<open>m[k] = v\<close>, and \<^verbatim>\<open>v, ok := m[k]\<close>.\<close>

definition makeStrMap :: "(string \<times> string) list \<Rightarrow> ('k, 'v) proc \<Rightarrow> addr \<times> ('k, 'v) proc" where
  "makeStrMap m s = (length (strMaps s), s\<lparr>strMaps := strMaps s @ [m]\<rparr>)"

definition strMapPut :: "addr \<Rightarrow> string \<Rightarrow> string \<Rightarrow> ('k, 'v) proc \<Rightarrow> ('k, 'v) proc" where
  "strMapPut a k v s = s\<lparr>strMaps := (strMaps s)[a := AList.update k v (strMaps s ! a)]\<rparr>"

definition strMapGet :: "addr \<Rightarrow> string \<Rightarrow> ('k, 'v) proc \<Rightarrow> string option" where
  "strMapGet a k s = map_of (strMaps s ! a) k"

definition makePropMap :: "('k \<times> 'v) list \<Rightarrow> ('k, 'v) proc \<Rightarrow> addr \<times> ('k, 'v) proc" where
  "makePropMap m s = (length (propMaps s), s\<lparr>propMaps := propMaps s @ [m]\<rparr>)"

definition propMapPut :: "addr \<Rightarrow> 'k \<Rightarrow> 'v \<Rightarrow> ('k, 'v) proc \<Rightarrow> ('k, 'v) proc" where
  "propMapPut a k v s = s\<lparr>propMaps := (propMaps s)[a := AList.update k v (propMaps s ! a)]\<rparr>"

definition propMapGet :: "addr \<Rightarrow> 'k \<Rightarrow> ('k, 'v) proc \<Rightarrow> 'v option" where
  "propMapGet a k s = map_of (propMaps s ! a) k"

text \<open>Reading a missing key of a \<^verbatim>\<open>map[string]string\<close> without the \<^verbatim>\<open>ok\<close> gives \<^verbatim>\<open>""\<close>.\<close>

definition orEmpty :: "string option \<Rightarrow> string" where
  "orEmpty r = (case r of None \<Rightarrow> [] | Some v \<Rightarrow> v)"

section \<open>The generators\<close>

text \<open>\<^verbatim>\<open>atomic.AddUint64(&nextOpID, 1)\<close> adds with wrap-around and returns the new value.\<close>

definition getNextOpID :: "('k, 'v) proc \<Rightarrow> string \<times> ('k, 'v) proc" where
  "getNextOpID s = (FormatUint (nextOpID s + 1), s\<lparr>nextOpID := nextOpID s + 1\<rparr>)"

definition generateCorrelationID :: "('k, 'v) proc \<Rightarrow> string \<times> ('k, 'v) proc" where
  "generateCorrelationID s = (nuid s (nuidDrawn s), s\<lparr>nuidDrawn := nuidDrawn s + 1\<rparr>)"

section \<open>FContextImpl\<close>

text \<open>
  Every method takes the receiver and the process and returns its result with the process
  after the call. The methods that return the receiver for chaining return only the
  process: the receiver is the same record.
\<close>

definition NewFContext :: "string \<Rightarrow> ('k, 'v) proc \<Rightarrow> FContextImpl \<times> ('k, 'v) proc" where
  "NewFContext correlationID s =
     (let (cid, s1) = (if correlationID = [] then generateCorrelationID s else (correlationID, s));
          (opid, s2) = getNextOpID s1;
          (rq, s3) = makeStrMap [(cidHeader, cid), (opIDHeader, opid),
                                 (timeoutHeader, FormatInt (quo defaultTimeout Millisecond))] s2;
          (rs, s4) = makeStrMap [] s3;
          (ep, s5) = makePropMap [] s4
      in (\<lparr>requestHeaders = rq, responseHeaders = rs, ephemeralProperties = ep\<rparr>, s5))"

definition CorrelationID :: "FContextImpl \<Rightarrow> ('k, 'v) proc \<Rightarrow> string" where
  "CorrelationID c s = orEmpty (strMapGet (requestHeaders c) cidHeader s)"

definition AddRequestHeader :: "FContextImpl \<Rightarrow> string \<Rightarrow> string \<Rightarrow> ('k, 'v) proc \<Rightarrow> ('k, 'v) proc" where
  "AddRequestHeader c name val s = strMapPut (requestHeaders c) name val s"

definition RequestHeader :: "FContextImpl \<Rightarrow> string \<Rightarrow> ('k, 'v) proc \<Rightarrow> string option" where
  "RequestHeader c name s = strMapGet (requestHeaders c) name s"

text \<open>The copy loop shared by the two header accessors: a fresh map, then one assignment per entry.\<close>

definition copyStrMap :: "addr \<Rightarrow> ('k, 'v) proc \<Rightarrow> addr \<times> ('k, 'v) proc" where
  "copyStrMap a s =
     (let (headers, s1) = makeStrMap [] s
      in (headers, fold (\<lambda>(name, val). strMapPut headers name val)
                        (AList.clearjunk (strMaps s1 ! a)) s1))"

definition RequestHeaders :: "FContextImpl \<Rightarrow> ('k, 'v) proc \<Rightarrow> addr \<times> ('k, 'v) proc" where
  "RequestHeaders c s = copyStrMap (requestHeaders c) s"

definition AddResponseHeader :: "FContextImpl \<Rightarrow> string \<Rightarrow> string \<Rightarrow> ('k, 'v) proc \<Rightarrow> ('k, 'v) proc" where
  "AddResponseHeader c name val s = strMapPut (responseHeaders c) name val s"

definition ResponseHeader :: "FContextImpl \<Rightarrow> string \<Rightarrow> ('k, 'v) proc \<Rightarrow> string option" where
  "ResponseHeader c name s = strMapGet (responseHeaders c) name s"

definition ResponseHeaders :: "FContextImpl \<Rightarrow> ('k, 'v) proc \<Rightarrow> addr \<times> ('k, 'v) proc" where
  "ResponseHeaders c s = copyStrMap (responseHeaders c) s"

definition SetTimeout :: "FContextImpl \<Rightarrow> Duration \<Rightarrow> ('k, 'v) proc \<Rightarrow> ('k, 'v) proc" where
  "SetTimeout c timeout s =
     strMapPut (requestHeaders c) timeoutHeader (FormatInt (quo timeout Millisecond)) s"

definition Timeout :: "FContextImpl \<Rightarrow> ('k, 'v) proc \<Rightarrow> Duration" where
  "Timeout c s =
     (let timeoutMillisStr = orEmpty (strMapGet (requestHeaders c) timeoutHeader s)
      in case ParseInt timeoutMillisStr of
           Inl err \<Rightarrow> defaultTimeout
         | Inr timeoutMillis \<Rightarrow> Millisecond * timeoutMillis)"

definition EphemeralProperty :: "FContextImpl \<Rightarrow> 'k \<Rightarrow> ('k, 'v) proc \<Rightarrow> 'v option" where
  "EphemeralProperty c key s = propMapGet (ephemeralProperties c) key s"

definition EphemeralProperties :: "FContextImpl \<Rightarrow> ('k, 'v) proc \<Rightarrow> addr \<times> ('k, 'v) proc" where
  "EphemeralProperties c s =
     (let (properties, s1) = makePropMap [] s
      in (properties, fold (\<lambda>(key, val). propMapPut properties key val)
                           (AList.clearjunk (propMaps s1 ! ephemeralProperties c)) s1))"

definition AddEphemeralProperty :: "FContextImpl \<Rightarrow> 'k \<Rightarrow> 'v \<Rightarrow> ('k, 'v) proc \<Rightarrow> ('k, 'v) proc" where
  "AddEphemeralProperty c key val s = propMapPut (ephemeralProperties c) key val s"

text \<open>The method \<^verbatim>\<open>(*FContextImpl).Clone\<close>.\<close>

definition FContextImpl_Clone :: "FContextImpl \<Rightarrow> ('k, 'v) proc \<Rightarrow> FContextImpl \<times> ('k, 'v) proc" where
  "FContextImpl_Clone c s =
     (let (rq, s1) = RequestHeaders c s;
          (rs, s2) = ResponseHeaders c s1;
          (ep, s3) = EphemeralProperties c s2;
          cloned = \<lparr>requestHeaders = rq, responseHeaders = rs, ephemeralProperties = ep\<rparr>;
          (opid, s4) = getNextOpID s3
      in (cloned, strMapPut (requestHeaders cloned) opIDHeader opid s4))"

text \<open>
  The function \<^verbatim>\<open>Clone(ctx FContext)\<close>. An \<^verbatim>\<open>FContextImpl\<close> has the methods of
  \<^verbatim>\<open>FContextWithEphemeralProperties\<close>, so the type assertion holds and the method is called.
\<close>

definition Clone :: "FContextImpl \<Rightarrow> ('k, 'v) proc \<Rightarrow> FContextImpl \<times> ('k, 'v) proc" where
  "Clone ctx s = FContextImpl_Clone ctx s"

definition setRequestOpID :: "FContextImpl \<Rightarrow> uint64 \<Rightarrow> ('k, 'v) proc \<Rightarrow> ('k, 'v) proc" where
  "setRequestOpID ctx ident s = AddRequestHeader ctx opIDHeader (FormatUint ident) s"

definition getOpID :: "FContextImpl \<Rightarrow> ('k, 'v) proc \<Rightarrow> ctx_error + uint64" where
  "getOpID ctx s =
     (case RequestHeader ctx opIDHeader s of
        None \<Rightarrow> Inl (MissingHeader opIDHeader)
      | Some opIDStr \<Rightarrow>
          (case ParseUint opIDStr of
             Inl err \<Rightarrow> Inl (OpIDNotNonNegative opIDStr)
           | Inr ident \<Rightarrow> Inr ident))"

definition setResponseOpID :: "FContextImpl \<Rightarrow> string \<Rightarrow> ('k, 'v) proc \<Rightarrow> ('k, 'v) proc" where
  "setResponseOpID ctx ident s = AddResponseHeader ctx opIDHeader ident s"

section \<open>A program that uses contexts\<close>

text \<open>
  What a holder of a context can do to it afterwards: the four methods that write. (The
  package's \<^verbatim>\<open>setRequestOpID\<close> and \<^verbatim>\<open>setResponseOpID\<close> are \<open>AddRequestHeader\<close> and
  \<open>AddResponseHeader\<close> on the name \<^verbatim>\<open>_opid\<close>.)
\<close>

datatype ('k, 'v) mutation =
    DoAddRequestHeader string string
  | DoAddResponseHeader string string
  | DoSetTimeout Duration
  | DoAddEphemeralProperty 'k 'v

fun mutate :: "('k, 'v) mutation \<Rightarrow> FContextImpl \<Rightarrow> ('k, 'v) proc \<Rightarrow> ('k, 'v) proc" where
  "mutate (DoAddRequestHeader name val) c s = AddRequestHeader c name val s"
| "mutate (DoAddResponseHeader name val) c s = AddResponseHeader c name val s"
| "mutate (DoSetTimeout d) c s = SetTimeout c d s"
| "mutate (DoAddEphemeralProperty key val) c s = AddEphemeralProperty c key val s"

text \<open>
  What the holder of a map can do to it: any sequence of assignments and deletions, after
  which the map has some entries \<open>m\<close>.
\<close>

definition writeStrMap :: "addr \<Rightarrow> (string \<times> string) list \<Rightarrow> ('k, 'v) proc \<Rightarrow> ('k, 'v) proc" where
  "writeStrMap a m s = s\<lparr>strMaps := (strMaps s)[a := m]\<rparr>"

definition writePropMap :: "addr \<Rightarrow> ('k \<times> 'v) list \<Rightarrow> ('k, 'v) proc \<Rightarrow> ('k, 'v) proc" where
  "writePropMap a m s = s\<lparr>propMaps := (propMaps s)[a := m]\<rparr>"

text \<open>What one can read off a context: its three maps, as lookups.\<close>

definition contents :: "FContextImpl \<Rightarrow> ('k, 'v) proc \<Rightarrow>
    (string \<rightharpoonup> string) \<times> (string \<rightharpoonup> string) \<times> ('k \<rightharpoonup> 'v)" where
  "contents c s = (map_of (strMaps s ! requestHeaders c),
                   map_of (strMaps s ! responseHeaders c),
                   map_of (propMaps s ! ephemeralProperties c))"

text \<open>
  A program is a sequence of calls. It holds the contexts it has constructed or cloned
  (numbered in the order of their creation) and the maps the accessors have returned to
  it; the fields of a context are unexported, so these are the only maps it can write
  directly. A call that names a context or a map the program does not hold does nothing.
  The reading methods leave the process as it is and are not calls.
\<close>

datatype ('k, 'v) call =
    CallNew string
  | CallClone nat
  | CallMutate nat "('k, 'v) mutation"
  | CallRequestHeaders nat
  | CallResponseHeaders nat
  | CallEphemeralProperties nat
  | WriteReturnedHeaders nat "(string \<times> string) list"
  | WriteReturnedProperties nat "('k \<times> 'v) list"

record ('k, 'v) program =
  mem :: "('k, 'v) proc"
  ctxs :: "FContextImpl list"
  headerCopies :: "addr list"
  propertyCopies :: "addr list"

definition startProgram :: "(nat \<Rightarrow> string) \<Rightarrow> ('k, 'v) program" where
  "startProgram g = \<lparr>mem = startProc g, ctxs = [], headerCopies = [], propertyCopies = []\<rparr>"

fun step :: "('k, 'v) call \<Rightarrow> ('k, 'v) program \<Rightarrow> ('k, 'v) program" where
  "step (CallNew cid) st =
     (let (c, s) = NewFContext cid (mem st) in st\<lparr>mem := s, ctxs := ctxs st @ [c]\<rparr>)"
| "step (CallClone i) st =
     (if i < length (ctxs st)
      then let (c, s) = Clone (ctxs st ! i) (mem st) in st\<lparr>mem := s, ctxs := ctxs st @ [c]\<rparr>
      else st)"
| "step (CallMutate i mu) st =
     (if i < length (ctxs st) then st\<lparr>mem := mutate mu (ctxs st ! i) (mem st)\<rparr> else st)"
| "step (CallRequestHeaders i) st =
     (if i < length (ctxs st)
      then let (h, s) = RequestHeaders (ctxs st ! i) (mem st)
           in st\<lparr>mem := s, headerCopies := headerCopies st @ [h]\<rparr>
      else st)"
| "step (CallResponseHeaders i) st =
     (if i < length (ctxs st)
      then let (h, s) = ResponseHeaders (ctxs st ! i) (mem st)
           in st\<lparr>mem := s, headerCopies := headerCopies st @ [h]\<rparr>
      else st)"
| "step (CallEphemeralProperties i) st =
     (if i < length (ctxs st)
      then let (p, s) = EphemeralProperties (ctxs st ! i) (mem st)
           in st\<lparr>mem := s, propertyCopies := propertyCopies st @ [p]\<rparr>
      else st)"
| "step (WriteReturnedHeaders j m) st =
     (if j < length (headerCopies st)
      then st\<lparr>mem := writeStrMap (headerCopies st ! j) m (mem st)\<rparr> else st)"
| "step (WriteReturnedProperties j m) st =
     (if j < length (propertyCopies st)
      then st\<lparr>mem := writePropMap (propertyCopies st ! j) m (mem st)\<rparr> else st)"

definition run :: "('k, 'v) call list \<Rightarrow> ('k, 'v) program \<Rightarrow> ('k, 'v) program" where
  "run calls st = fold step calls st"

text \<open>The calls that create a context.\<close>

fun creates :: "('k, 'v) call \<Rightarrow> bool" where
  "creates (CallNew cid) = True"
| "creates (CallClone i) = True"
| "creates other = False"

text \<open>
  The calls after which a \<^verbatim>\<open>_timeout\<close> header is still a non-negative number: all but
  \<open>SetTimeout\<close> with a negative duration and \<open>AddRequestHeader\<close> on the name \<^verbatim>\<open>_timeout\<close>.
\<close>

fun keepsTimeout :: "('k, 'v) call \<Rightarrow> bool" where
  "keepsTimeout (CallMutate i (DoSetTimeout d)) = (0 \<le> sint d)"
| "keepsTimeout (CallMutate i (DoAddRequestHeader name val)) = (name \<noteq> timeoutHeader)"
| "keepsTimeout other = True"

text \<open>\<open>n\<close> draws from the op-id generator, one after the other.\<close>

fun draws :: "nat \<Rightarrow> ('k, 'v) proc \<Rightarrow> string list \<times> ('k, 'v) proc" where
  "draws 0 s = ([], s)"
| "draws (Suc n) s =
     (let (ids, s1) = draws n s; (ident, s2) = getNextOpID s1 in (ids @ [ident], s2))"

section \<open>Notions used in the statements\<close>

text \<open>The number a string of digits denotes, and the strings that denote one.\<close>

definition dec_val :: "nat \<Rightarrow> string \<Rightarrow> nat" where
  "dec_val n s = fold (\<lambda>c a. 10 * a + digit_val c) s n"

definition decimal :: "string \<Rightarrow> bool" where
  "decimal s \<longleftrightarrow> s \<noteq> [] \<and> list_all is_digit s"

text \<open>An integer in decimal: an optional sign, then digits.\<close>

definition signed_decimal :: "string \<Rightarrow> bool" where
  "signed_decimal s \<longleftrightarrow>
     s \<noteq> [] \<and> decimal (if hd s = CHR ''+'' \<or> hd s = CHR ''-'' then tl s else s)"

text \<open>\<open>k\<close> lies between zero and \<open>x\<close>.\<close>

definition towards_zero :: "int \<Rightarrow> int \<Rightarrow> bool" where
  "towards_zero k x \<longleftrightarrow> (0 \<le> k \<and> k \<le> x) \<or> (x \<le> k \<and> k \<le> 0)"

text \<open>The number of entries a map has under a key.\<close>

definition entriesFor :: "'a \<Rightarrow> ('a \<times> 'b) list \<Rightarrow> nat" where
  "entriesFor k m = length (filter (\<lambda>e. fst e = k) m)"

text \<open>The maps of a context are maps of the process.\<close>

definition allocated :: "FContextImpl \<Rightarrow> ('k, 'v) proc \<Rightarrow> bool" where
  "allocated c s \<longleftrightarrow>
     requestHeaders c < length (strMaps s) \<and> responseHeaders c < length (strMaps s) \<and>
     ephemeralProperties c < length (propMaps s)"

section \<open>What programs preserve\<close>

text \<open>
  In a program that only constructs and clones, the counter has counted the contexts and
  the \<open>j\<close>-th context carries the \<open>j + 1\<close>-st counter value.
\<close>

definition counted :: "('k, 'v) program \<Rightarrow> bool" where
  "counted st \<longleftrightarrow>
     nextOpID (mem st) = of_nat (length (ctxs st)) \<and>
     (\<forall>j < length (ctxs st).
        allocated (ctxs st ! j) (mem st) \<and>
        RequestHeader (ctxs st ! j) opIDHeader (mem st) = Some (FormatUint (of_nat (Suc j))))"

text \<open>
  In every program the contexts have their maps in the process and their three reserved
  request headers once each; the header maps handed out are maps of the process and none
  of them is the request-header map of a context; and no context's response-header map is
  another's request-header map.
\<close>

definition reservedKept :: "(string \<times> string) list \<Rightarrow> bool" where
  "reservedKept m \<longleftrightarrow>
     distinct (map fst m) \<and> cidHeader \<in> fst ` set m \<and> opIDHeader \<in> fst ` set m \<and>
     timeoutHeader \<in> fst ` set m"

definition sound :: "('k, 'v) program \<Rightarrow> bool" where
  "sound st \<longleftrightarrow>
     (\<forall>c \<in> set (ctxs st). allocated c (mem st) \<and>
        reservedKept (strMaps (mem st) ! requestHeaders c)) \<and>
     (\<forall>h \<in> set (headerCopies st). h < length (strMaps (mem st))) \<and>
     (\<forall>c \<in> set (ctxs st). \<forall>h \<in> set (headerCopies st). h \<noteq> requestHeaders c) \<and>
     (\<forall>c \<in> set (ctxs st). \<forall>c' \<in> set (ctxs st). responseHeaders c \<noteq> requestHeaders c')"

text \<open>
  The maps handed out stay apart from the maps of the contexts: all of them are maps of
  the process, and no map handed out is a map of a context.
\<close>

definition apart :: "('k, 'v) program \<Rightarrow> bool" where
  "apart st \<longleftrightarrow>
     (\<forall>c \<in> set (ctxs st). allocated c (mem st)) \<and>
     (\<forall>h \<in> set (headerCopies st). h < length (strMaps (mem st)) \<and>
        (\<forall>c \<in> set (ctxs st). h \<noteq> requestHeaders c \<and> h \<noteq> responseHeaders c)) \<and>
     (\<forall>p \<in> set (propertyCopies st). p < length (propMaps (mem st)) \<and>
        (\<forall>c \<in> set (ctxs st). p \<noteq> ephemeralProperties c))"

text \<open>The \<^verbatim>\<open>_timeout\<close> entry of a request-header map parses as a non-negative integer.\<close>

definition nonNegativeTimeout :: "(string \<times> string) list \<Rightarrow> bool" where
  "nonNegativeTimeout m \<longleftrightarrow>
     (case map_of m timeoutHeader of
        None \<Rightarrow> False
      | Some v \<Rightarrow> (case ParseInt v of Inl e \<Rightarrow> False | Inr w \<Rightarrow> 0 \<le> sint w))"

definition timeoutsKept :: "('k, 'v) program \<Rightarrow> bool" where
  "timeoutsKept st \<longleftrightarrow>
     (\<forall>c \<in> set (ctxs st). nonNegativeTimeout (strMaps (mem st) ! requestHeaders c))"

section \<open>An example process\<close>

text \<open>
  An id sequence, the process and the program that start with it, and the first context
  constructed in that process with the process after its construction.
\<close>

definition exampleNuid :: "nat \<Rightarrow> string" where
  "exampleNuid n = ''nuid'' @ digits10 n"

definition exampleProc :: "(string, string) proc" where
  "exampleProc = startProc exampleNuid"

definition exampleProgram :: "(string, string) program" where
  "exampleProgram = startProgram exampleNuid"

definition exampleCtx :: FContextImpl where
  "exampleCtx = fst (NewFContext ''abc'' exampleProc)"

definition exampleMem :: "(string, string) proc" where
  "exampleMem = snd (NewFContext ''abc'' exampleProc)"

section \<open>Formatting and parsing agree\<close>

text \<open>
  Parsing reads back what formatting writes, for every 64-bit value, and \<open>ParseUint\<close>
  accepts exactly the non-empty strings of digits whose value fits 64 bits.
\<close>

lemma digit_char_ok: "d < 10 \<Longrightarrow> is_digit (digit_char d) \<and> digit_val (digit_char d) = d"
proof -
  assume "d < 10"
  then have "d \<in> {0, 1, 2, 3, 4, 5, 6, 7, 8, 9}" by auto
  then show ?thesis
    by (auto simp: is_digit_def digit_val_def digit_char_def)
qed

lemma digits10_nonempty: "digits10 n \<noteq> []"
  by (subst digits10.simps) simp

lemma digits10_digits: "c \<in> set (digits10 n) \<Longrightarrow> is_digit c"
proof (induction n arbitrary: c rule: digits10.induct)
  case (1 n)
  show ?case
  proof (cases "n < 10")
    case True
    with "1.prems" show ?thesis
      by (subst (asm) digits10.simps) (simp add: digit_char_ok)
  next
    case False
    with "1.prems" "1.IH" show ?thesis
      by (subst (asm) digits10.simps) (auto simp: digit_char_ok)
  qed
qed

lemma parse_digits_append:
  "parse_digits n (xs @ ys) = (case parse_digits n xs of Inl e \<Rightarrow> Inl e | Inr m \<Rightarrow> parse_digits m ys)"
  by (induction xs arbitrary: n) auto

lemma parse_digits_digits10: "n \<le> maxUint64 \<Longrightarrow> parse_digits 0 (digits10 n) = Inr n"
proof (induction n rule: digits10.induct)
  case (1 n)
  show ?case
  proof (cases "n < 10")
    case True
    with "1.prems" show ?thesis
      by (subst digits10.simps) (simp add: digit_char_ok)
  next
    case False
    have "n div 10 \<le> maxUint64" using "1.prems" by simp
    with False "1.IH" have ih: "parse_digits 0 (digits10 (n div 10)) = Inr (n div 10)" by simp
    show ?thesis using False "1.prems"
      by (subst digits10.simps) (simp add: parse_digits_append ih digit_char_ok)
  qed
qed

lemma ParseUint_FormatUint: "ParseUint (FormatUint u) = Inr u"
proof -
  have "unat u \<le> maxUint64"
    using unsigned_less [of u, where 'a = nat] by (simp add: maxUint64_def)
  then show ?thesis
    by (simp add: ParseUint_def FormatUint_def digits10_nonempty parse_digits_digits10)
qed

lemma dec_val_ge: "n \<le> dec_val n s"
  unfolding dec_val_def
proof (induction s arbitrary: n)
  case Nil
  show ?case by simp
next
  case (Cons c cs)
  have "n \<le> 10 * n + digit_val c" by simp
  also have "\<dots> \<le> fold (\<lambda>c a. 10 * a + digit_val c) cs (10 * n + digit_val c)" by (rule Cons.IH)
  finally show ?case by simp
qed

lemma parse_digits_Inr:
  "parse_digits n s = Inr m \<longleftrightarrow>
     (\<forall>c\<in>set s. is_digit c) \<and> (s \<noteq> [] \<longrightarrow> dec_val n s \<le> maxUint64) \<and> m = dec_val n s"
proof (induction s arbitrary: n)
  case Nil
  show ?case by (auto simp: dec_val_def)
next
  case (Cons c cs)
  have ge: "10 * n + digit_val c \<le> dec_val (10 * n + digit_val c) cs" by (rule dec_val_ge)
  have unf: "dec_val n (c # cs) = dec_val (10 * n + digit_val c) cs" by (simp add: dec_val_def)
  show ?case
  proof (cases "is_digit c \<and> 10 * n + digit_val c \<le> maxUint64")
    case True
    then show ?thesis using Cons.IH [of "10 * n + digit_val c"] unf
      by (cases cs) (auto simp: dec_val_def)
  next
    case False
    then show ?thesis using ge unf by auto
  qed
qed

lemma ParseUint_Inr:
  "ParseUint s = Inr u \<longleftrightarrow>
     s \<noteq> [] \<and> (\<forall>c\<in>set s. is_digit c) \<and> dec_val 0 s \<le> maxUint64 \<and> u = of_nat (dec_val 0 s)"
proof (cases "parse_digits 0 s")
  case (Inl e)
  then show ?thesis using parse_digits_Inr [of 0 s "dec_val 0 s"]
    by (auto simp: ParseUint_def)
next
  case (Inr n)
  then show ?thesis using parse_digits_Inr [of 0 s n]
    by (auto simp: ParseUint_def)
qed

lemma hd_digits10: "is_digit (hd (digits10 n))"
  using digits10_digits [of "hd (digits10 n)" n] digits10_nonempty [of n] by simp

lemma not_digit_sign: "\<not> is_digit (CHR ''+'')" "\<not> is_digit (CHR ''-'')"
  by (simp_all add: is_digit_def)

lemma ParseInt_FormatInt: "ParseInt (FormatInt i) = Inr i"
proof (cases "sint i < 0")
  case True
  define m where "m = nat (- sint i)"
  have lo: "- (2 ^ 63) \<le> sint i" using sint_ge [of i] by simp
  have m_le: "m \<le> 2 ^ 63" using lo True by (simp add: m_def)
  have m_max: "m \<le> maxUint64" using m_le by (simp add: maxUint64_def)
  have w: "(of_nat m :: 64 word) = - i"
    using True by (simp add: m_def)
  have um: "unat (of_nat m :: 64 word) = m"
    using m_le by (simp add: unsigned_of_nat take_bit_nat_eq_self)
  have nlt: "\<not> (2 ^ 63 :: 64 word) < of_nat m"
    using m_le by (simp add: word_less_nat_alt um)
  have pu: "ParseUint (digits10 m) = Inr (of_nat m)"
    by (simp add: ParseUint_def digits10_nonempty parse_digits_digits10 m_max)
  show ?thesis
    using True nlt w pu by (simp add: ParseInt_def FormatInt_def Let_def m_def [symmetric])
next
  case False
  define m where "m = nat (sint i)"
  have hi: "sint i < 2 ^ 63" using sint_lt [of i] by simp
  have m_lt: "m < 2 ^ 63" using hi False by (simp add: m_def)
  have m_max: "m \<le> maxUint64" using m_lt by (simp add: maxUint64_def)
  have w: "(of_nat m :: 64 word) = i"
    using False by (simp add: m_def)
  have um: "unat (of_nat m :: 64 word) = m"
    using m_lt by (simp add: unsigned_of_nat take_bit_nat_eq_self)
  have nle: "\<not> (2 ^ 63 :: 64 word) \<le> of_nat m"
    using m_lt by (simp add: word_le_nat_alt um)
  have pu: "ParseUint (digits10 m) = Inr (of_nat m)"
    by (simp add: ParseUint_def digits10_nonempty parse_digits_digits10 m_max)
  have sg: "hd (digits10 m) \<noteq> CHR ''+''" "hd (digits10 m) \<noteq> CHR ''-''"
    using hd_digits10 [of m] not_digit_sign by auto
  show ?thesis
    using False nle w pu sg
    by (simp add: ParseInt_def FormatInt_def Let_def m_def [symmetric] digits10_nonempty)
qed

lemma FormatUint_small: "FormatUint 1 = ''1''" "FormatUint 2 = ''2''" "FormatUint 0 = ''0''"
  by (simp_all add: FormatUint_def digits10.simps digit_char_def)

lemma FormatInt_minus_1: "FormatInt (- 1) = ''-1''"
  by (simp add: FormatInt_def digits10.simps digit_char_def)

section \<open>Durations, the store, construction\<close>

text \<open>
  Division by a millisecond and the product with a millisecond stay within 64 bits; what
  \<open>ParseInt\<close> accepts is a signed decimal; \<open>NewFContext\<close> as the store it leaves.
\<close>

lemma header_names_differ:
  "cidHeader \<noteq> opIDHeader" "cidHeader \<noteq> timeoutHeader" "opIDHeader \<noteq> timeoutHeader"
  "opIDHeader \<noteq> cidHeader" "timeoutHeader \<noteq> cidHeader" "timeoutHeader \<noteq> opIDHeader"
  by (simp_all add: cidHeader_def opIDHeader_def timeoutHeader_def)

lemma sdiv_pos_divisor:
  fixes k l :: int
  assumes "0 < l"
  shows "k sdiv l = (if 0 \<le> k then k div l else - ((- k) div l))"
  using assms by (auto simp: signed_divide_int_def sgn_if)

lemma sdiv_million_towards_zero:
  fixes k :: int
  shows "towards_zero (k sdiv 1000000 * 1000000) k" and "towards_zero (k sdiv 1000000) k"
proof -
  have a: "0 \<le> k \<Longrightarrow> k div 1000000 * 1000000 \<le> k" by simp
  have b: "k < 0 \<Longrightarrow> (- k) div 1000000 * 1000000 \<le> - k" by simp
  have c: "0 \<le> k \<Longrightarrow> 0 \<le> k div 1000000" by simp
  have d: "k < 0 \<Longrightarrow> 0 \<le> (- k) div 1000000" by simp
  show "towards_zero (k sdiv 1000000 * 1000000) k"
    using a b c d by (cases "0 \<le> k") (simp_all add: sdiv_pos_divisor towards_zero_def)
  have e: "0 \<le> k \<Longrightarrow> k div 1000000 \<le> k"
    by (metis div_by_1 zdiv_mono2 zero_less_one one_le_numeral)
  have f: "k < 0 \<Longrightarrow> (- k) div 1000000 \<le> - k"
    by (metis div_by_1 zdiv_mono2 zero_less_one one_le_numeral neg_0_le_iff_le less_imp_le)
  show "towards_zero (k sdiv 1000000) k"
    using c d e f by (cases "0 \<le> k") (simp_all add: sdiv_pos_divisor towards_zero_def)
qed

lemma sint_Millisecond: "sint Millisecond = 1000000"
  by (simp add: Millisecond_def)

lemma sint_in_range:
  fixes k :: int
  assumes "towards_zero k (sint (d :: 64 word))"
  shows "sint (word_of_int k :: 64 word) = k"
proof -
  have "- (2 ^ 63) \<le> sint d" "sint d < 2 ^ 63"
    using sint_ge [of d] sint_lt [of d] by simp_all
  then have "- (2 ^ 63) \<le> k" "k < 2 ^ 63" using assms by (auto simp: towards_zero_def)
  then show ?thesis by (simp add: sint_sbintrunc' signed_take_bit_int_eq_self)
qed

lemma sint_quo_Millisecond: "sint (quo d Millisecond) = sint d sdiv 1000000"
  unfolding quo_def sint_Millisecond
  by (rule sint_in_range [of _ d]) (rule sdiv_million_towards_zero)

lemma sint_Millisecond_times_quo:
  "sint (Millisecond * quo d Millisecond) = sint d sdiv 1000000 * 1000000"
proof -
  have "Millisecond * quo d Millisecond = word_of_int (sint d sdiv 1000000 * 1000000)"
    by (simp add: quo_def Millisecond_def mult.commute)
  then show ?thesis
    using sint_in_range [of "sint d sdiv 1000000 * 1000000" d] sdiv_million_towards_zero(1) [of "sint d"]
    by simp
qed

lemma strMapGet_strMapPut:
  "a < length (strMaps s) \<Longrightarrow>
   strMapGet a k' (strMapPut a k v s) = (if k' = k then Some v else strMapGet a k' s)"
  by (simp add: strMapGet_def strMapPut_def update_conv')

lemma Timeout_SetTimeout:
  "requestHeaders c < length (strMaps s) \<Longrightarrow>
   Timeout c (SetTimeout c d s) = Millisecond * quo d Millisecond"
  by (simp add: Timeout_def SetTimeout_def strMapGet_strMapPut orEmpty_def ParseInt_FormatInt)

lemma max_word_cutoff: "(2 ^ 63 :: 64 word) \<le> of_nat maxUint64" "(2 ^ 63 :: 64 word) < of_nat maxUint64"
  by (simp_all add: maxUint64_def)

lemma ParseInt_Inr_ParseUint:
  assumes "ParseInt v = Inr w"
  shows "v \<noteq> [] \<and> (\<exists>u. ParseUint (if hd v = CHR ''+'' \<or> hd v = CHR ''-'' then tl v else v) = Inr u)"
proof -
  let ?s = "if hd v = CHR ''+'' \<or> hd v = CHR ''-'' then tl v else v"
  have ne: "v \<noteq> []" using assms by (auto simp: ParseInt_def)
  show ?thesis
  proof (cases "ParseUint ?s")
    case (Inr u)
    with ne show ?thesis by simp
  next
    case (Inl e)
    then have False using assms ne max_word_cutoff
      by (cases e) (auto simp: ParseInt_def Let_def split: if_splits)
    then show ?thesis ..
  qed
qed

lemma ParseInt_needs_signed_decimal: "\<not> signed_decimal v \<Longrightarrow> isl (ParseInt v)"
proof (rule ccontr)
  assume n: "\<not> signed_decimal v" and "\<not> isl (ParseInt v)"
  then obtain w where "ParseInt v = Inr w" by (cases "ParseInt v") auto
  from ParseInt_Inr_ParseUint [OF this] n show False
    by (auto simp: signed_decimal_def decimal_def ParseUint_Inr list_all_iff)
qed

lemma quo_default: "quo defaultTimeout Millisecond = 5000"
  by (simp add: quo_def defaultTimeout_def Second_def Millisecond_def)

lemma FormatInt_5000: "FormatInt 5000 = ''5000''"
  by (simp add: FormatInt_def digits10.simps digit_char_def)

lemma ParseInt_5000: "ParseInt ''5000'' = Inr 5000"
  using ParseInt_FormatInt [of 5000] by (simp add: FormatInt_5000)

lemma NewFContext_eq:
  "NewFContext cid s =
     (\<lparr>requestHeaders = length (strMaps s), responseHeaders = Suc (length (strMaps s)),
       ephemeralProperties = length (propMaps s)\<rparr>,
      s\<lparr>strMaps := strMaps s @
            [[(cidHeader, if cid = [] then nuid s (nuidDrawn s) else cid),
              (opIDHeader, FormatUint (nextOpID s + 1)),
              (timeoutHeader, ''5000'')], []],
        propMaps := propMaps s @ [[]],
        nextOpID := nextOpID s + 1,
        nuidDrawn := (if cid = [] then nuidDrawn s + 1 else nuidDrawn s)\<rparr>)"
  by (simp add: NewFContext_def generateCorrelationID_def getNextOpID_def makeStrMap_def
      makePropMap_def quo_default FormatInt_5000)

lemma Timeout_NewFContext:
  "Timeout (fst (NewFContext cid s)) (snd (NewFContext cid s)) = defaultTimeout"
  by (simp add: NewFContext_eq Timeout_def strMapGet_def orEmpty_def nth_append header_names_differ
      ParseInt_5000 defaultTimeout_def Second_def Millisecond_def)

section \<open>Copies and clones in the store\<close>

text \<open>
  The copy loops and \<open>Clone\<close> as the store they leave: the new maps are appended and
  the maps that were there stay as they were.
\<close>

lemma update_fresh: "k \<notin> fst ` set al \<Longrightarrow> AList.update k v al = al @ [(k, v)]"
  by (induction al) auto

lemma fold_update_distinct:
  "distinct (map fst xs) \<Longrightarrow> fst ` set xs \<inter> fst ` set ys = {} \<Longrightarrow>
   fold (\<lambda>(k, v). AList.update k v) xs ys = ys @ xs"
proof (induction xs arbitrary: ys)
  case Nil
  show ?case by simp
next
  case (Cons x xs)
  obtain k v where x: "x = (k, v)" by (cases x)
  from Cons.prems have k: "k \<notin> fst ` set ys" and d: "distinct (map fst xs)"
    and kx: "k \<notin> fst ` set xs" and dis: "fst ` set xs \<inter> fst ` set ys = {}"
    by (auto simp: x)
  have "fst ` set xs \<inter> fst ` set (ys @ [(k, v)]) = {}" using kx dis by auto
  from Cons.IH [OF d this] show ?case by (simp add: x update_fresh [OF k])
qed

lemma copy_entries: "fold (\<lambda>(k, v). AList.update k v) (AList.clearjunk m) [] = AList.clearjunk m"
  using fold_update_distinct [of "AList.clearjunk m" "[]"] by simp

lemma fold_strMapPut:
  "a < length (strMaps s) \<Longrightarrow>
   fold (\<lambda>(k, v). strMapPut a k v) xs s =
   s\<lparr>strMaps := (strMaps s)[a := fold (\<lambda>(k, v). AList.update k v) xs (strMaps s ! a)]\<rparr>"
proof (induction xs arbitrary: s)
  case Nil
  then show ?case by simp
next
  case (Cons x xs)
  obtain k v where x: "x = (k, v)" by (cases x)
  have "a < length (strMaps (strMapPut a k v s))" using Cons.prems by (simp add: strMapPut_def)
  from Cons.IH [OF this] Cons.prems show ?case by (simp add: x strMapPut_def)
qed

lemma fold_propMapPut:
  "a < length (propMaps s) \<Longrightarrow>
   fold (\<lambda>(k, v). propMapPut a k v) xs s =
   s\<lparr>propMaps := (propMaps s)[a := fold (\<lambda>(k, v). AList.update k v) xs (propMaps s ! a)]\<rparr>"
proof (induction xs arbitrary: s)
  case Nil
  then show ?case by simp
next
  case (Cons x xs)
  obtain k v where x: "x = (k, v)" by (cases x)
  have "a < length (propMaps (propMapPut a k v s))" using Cons.prems by (simp add: propMapPut_def)
  from Cons.IH [OF this] Cons.prems show ?case by (simp add: x propMapPut_def)
qed

lemma copyStrMap_eq:
  "a < length (strMaps s) \<Longrightarrow>
   copyStrMap a s = (length (strMaps s), s\<lparr>strMaps := strMaps s @ [AList.clearjunk (strMaps s ! a)]\<rparr>)"
  by (simp add: copyStrMap_def makeStrMap_def fold_strMapPut nth_append copy_entries)

lemma EphemeralProperties_eq:
  "ephemeralProperties c < length (propMaps s) \<Longrightarrow>
   EphemeralProperties c s =
     (length (propMaps s),
      s\<lparr>propMaps := propMaps s @ [AList.clearjunk (propMaps s ! ephemeralProperties c)]\<rparr>)"
  by (simp add: EphemeralProperties_def makePropMap_def fold_propMapPut nth_append copy_entries)

lemma Clone_eq:
  "allocated c s \<Longrightarrow>
   Clone c s =
     (\<lparr>requestHeaders = length (strMaps s), responseHeaders = Suc (length (strMaps s)),
       ephemeralProperties = length (propMaps s)\<rparr>,
      s\<lparr>strMaps := strMaps s @
            [AList.update opIDHeader (FormatUint (nextOpID s + 1))
               (AList.clearjunk (strMaps s ! requestHeaders c)),
             AList.clearjunk (strMaps s ! responseHeaders c)],
        propMaps := propMaps s @ [AList.clearjunk (propMaps s ! ephemeralProperties c)],
        nextOpID := nextOpID s + 1\<rparr>)"
  by (simp add: Clone_def FContextImpl_Clone_def RequestHeaders_def ResponseHeaders_def
      copyStrMap_eq EphemeralProperties_eq getNextOpID_def strMapPut_def allocated_def
      nth_append list_update_append)

lemma FormatUint_inj:
  assumes "FormatUint a = FormatUint b"
  shows "a = b"
proof -
  have "ParseUint (FormatUint a) = ParseUint (FormatUint b)" by (simp only: assms)
  then show ?thesis by (simp only: ParseUint_FormatUint sum.inject)
qed

lemma counter_grows: "n \<noteq> - 1 \<Longrightarrow> n < n + 1" for n :: uint64
  using inc_less_eq_self_iff_eq [of n] by auto

lemma contents_eqI:
  "strMaps s' ! requestHeaders c = strMaps s ! requestHeaders c \<Longrightarrow>
   strMaps s' ! responseHeaders c = strMaps s ! responseHeaders c \<Longrightarrow>
   propMaps s' ! ephemeralProperties c = propMaps s ! ephemeralProperties c \<Longrightarrow>
   contents c s' = contents c s"
  by (simp add: contents_def)

lemma mutate_strMaps_other:
  "a \<noteq> requestHeaders c \<Longrightarrow> a \<noteq> responseHeaders c \<Longrightarrow> strMaps (mutate mu c s) ! a = strMaps s ! a"
  by (cases mu) (simp_all add: AddRequestHeader_def AddResponseHeader_def SetTimeout_def
      AddEphemeralProperty_def strMapPut_def propMapPut_def)

lemma mutate_propMaps_other:
  "a \<noteq> ephemeralProperties c \<Longrightarrow> propMaps (mutate mu c s) ! a = propMaps s ! a"
  by (cases mu) (simp_all add: AddRequestHeader_def AddResponseHeader_def SetTimeout_def
      AddEphemeralProperty_def strMapPut_def propMapPut_def)

lemma mutate_contents_other:
  assumes "requestHeaders c' \<noteq> requestHeaders c" "requestHeaders c' \<noteq> responseHeaders c"
    "responseHeaders c' \<noteq> requestHeaders c" "responseHeaders c' \<noteq> responseHeaders c"
    "ephemeralProperties c' \<noteq> ephemeralProperties c"
  shows "contents c' (mutate mu c s) = contents c' s"
  using assms by (intro contents_eqI mutate_strMaps_other mutate_propMaps_other)

lemma map_of_update_other: "k' \<noteq> k \<Longrightarrow> map_of (AList.update k v al) k' = map_of al k'"
  by (simp add: update_conv')

lemma copies_are_fresh:
  assumes "allocated c s" and "allocated c' s"
  shows "(case RequestHeaders c s of (h, s') \<Rightarrow>
            map_of (strMaps s' ! h) = map_of (strMaps s ! requestHeaders c)
            \<and> contents c' s' = contents c' s
            \<and> (\<forall>m. contents c' (writeStrMap h m s') = contents c' s')
            \<and> (\<forall>mu. strMaps (mutate mu c' s') ! h = strMaps s' ! h))
       \<and> (case ResponseHeaders c s of (h, s') \<Rightarrow>
            map_of (strMaps s' ! h) = map_of (strMaps s ! responseHeaders c)
            \<and> contents c' s' = contents c' s
            \<and> (\<forall>m. contents c' (writeStrMap h m s') = contents c' s')
            \<and> (\<forall>mu. strMaps (mutate mu c' s') ! h = strMaps s' ! h))
       \<and> (case EphemeralProperties c s of (p, s') \<Rightarrow>
            map_of (propMaps s' ! p) = map_of (propMaps s ! ephemeralProperties c)
            \<and> contents c' s' = contents c' s
            \<and> (\<forall>m. contents c' (writePropMap p m s') = contents c' s')
            \<and> (\<forall>mu. propMaps (mutate mu c' s') ! p = propMaps s' ! p))"
proof -
  from assms have a: "requestHeaders c < length (strMaps s)" "responseHeaders c < length (strMaps s)"
    "ephemeralProperties c < length (propMaps s)"
    and b: "requestHeaders c' < length (strMaps s)" "responseHeaders c' < length (strMaps s)"
    "ephemeralProperties c' < length (propMaps s)"
    by (simp_all add: allocated_def)
  have strCopy: "map_of (strMaps s' ! h) = map_of (strMaps s ! a)
            \<and> contents c' s' = contents c' s
            \<and> (\<forall>m. contents c' (writeStrMap h m s') = contents c' s')
            \<and> (\<forall>mu. strMaps (mutate mu c' s') ! h = strMaps s' ! h)"
    if "a < length (strMaps s)" and "copyStrMap a s = (h, s')" for a h s'
  proof -
    from that have h: "h = length (strMaps s)"
      and s': "s' = s\<lparr>strMaps := strMaps s @ [AList.clearjunk (strMaps s ! a)]\<rparr>"
      by (simp_all add: copyStrMap_eq)
    have 1: "map_of (strMaps s' ! h) = map_of (strMaps s ! a)"
      by (simp add: h s' map_of_clearjunk)
    have 2: "contents c' s' = contents c' s"
      using b by (simp add: contents_def s' nth_append)
    have 3: "contents c' (writeStrMap h m s') = contents c' s'" for m
      using b by (simp add: contents_def writeStrMap_def h s' nth_append)
    have 4: "strMaps (mutate mu c' s') ! h = strMaps s' ! h" for mu
      using b by (intro mutate_strMaps_other) (simp_all add: h)
    from 1 2 3 4 show ?thesis by blast
  qed
  have propCopy: "map_of (propMaps s' ! p) = map_of (propMaps s ! ephemeralProperties c)
            \<and> contents c' s' = contents c' s
            \<and> (\<forall>m. contents c' (writePropMap p m s') = contents c' s')
            \<and> (\<forall>mu. propMaps (mutate mu c' s') ! p = propMaps s' ! p)"
    if "EphemeralProperties c s = (p, s')" for p s'
  proof -
    from that a have p: "p = length (propMaps s)"
      and s': "s' = s\<lparr>propMaps := propMaps s @ [AList.clearjunk (propMaps s ! ephemeralProperties c)]\<rparr>"
      by (simp_all add: EphemeralProperties_eq)
    have 1: "map_of (propMaps s' ! p) = map_of (propMaps s ! ephemeralProperties c)"
      by (simp add: p s' map_of_clearjunk)
    have 2: "contents c' s' = contents c' s"
      using b by (simp add: contents_def s' nth_append)
    have 3: "contents c' (writePropMap p m s') = contents c' s'" for m
      using b by (simp add: contents_def writePropMap_def p s' nth_append)
    have 4: "propMaps (mutate mu c' s') ! p = propMaps s' ! p" for mu
      using b by (intro mutate_propMaps_other) (simp add: p)
    from 1 2 3 4 show ?thesis by blast
  qed
  show ?thesis
    using strCopy [OF a(1), of "fst (RequestHeaders c s)" "snd (RequestHeaders c s)"]
      strCopy [OF a(2), of "fst (ResponseHeaders c s)" "snd (ResponseHeaders c s)"]
      propCopy [of "fst (EphemeralProperties c s)" "snd (EphemeralProperties c s)"]
    by (simp add: RequestHeaders_def ResponseHeaders_def split_beta)
qed

section \<open>The op-id counter\<close>

text \<open>
  \<open>n\<close> draws advance the counter by \<open>n\<close>; a program that only constructs and clones
  keeps \<open>counted\<close>.
\<close>

lemma draws_counter: "nextOpID (snd (draws n s)) = nextOpID s + of_nat n"
  by (induction n) (simp_all add: split_beta getNextOpID_def)

lemma draws_ids: "fst (draws n s) = map (\<lambda>k. FormatUint (nextOpID s + of_nat (Suc k))) [0..<n]"
proof (induction n)
  case 0
  show ?case by simp
next
  case (Suc n)
  then show ?case
    using draws_counter [of n s] by (simp add: split_beta getNextOpID_def ac_simps)
qed

lemma of_nat_less_word:
  "i < j \<Longrightarrow> j < 2 ^ 64 \<Longrightarrow> (of_nat i :: uint64) < of_nat j"
  by (simp add: word_of_nat_less_iff take_bit_nat_eq_self)

lemma counted_start: "counted (startProgram g)"
  by (simp add: counted_def startProgram_def startProc_def)

lemma allocated_grow:
  "allocated c s \<Longrightarrow> strMaps s' = strMaps s @ xs \<Longrightarrow> propMaps s' = propMaps s @ ys \<Longrightarrow>
   allocated c s'"
  by (simp add: allocated_def)

lemma RequestHeader_grow:
  "allocated c s \<Longrightarrow> strMaps s' = strMaps s @ xs \<Longrightarrow>
   RequestHeader c name s' = RequestHeader c name s"
  by (simp add: allocated_def RequestHeader_def strMapGet_def nth_append)

lemma counted_add:
  assumes st: "counted st"
    and s': "strMaps s' = strMaps (mem st) @ xs" "propMaps s' = propMaps (mem st) @ ys"
    and n: "nextOpID s' = nextOpID (mem st) + 1"
    and c: "allocated c s'" "RequestHeader c opIDHeader s' = Some (FormatUint (nextOpID (mem st) + 1))"
  shows "counted (st\<lparr>mem := s', ctxs := ctxs st @ [c]\<rparr>)"
proof -
  have cnt: "nextOpID (mem st) = of_nat (length (ctxs st))" using st by (simp add: counted_def)
  have old: "allocated (ctxs st ! j) s' \<and>
      RequestHeader (ctxs st ! j) opIDHeader s' = Some (FormatUint (of_nat (Suc j)))"
    if "j < length (ctxs st)" for j
  proof -
    from st that have a: "allocated (ctxs st ! j) (mem st)"
      and r: "RequestHeader (ctxs st ! j) opIDHeader (mem st) = Some (FormatUint (of_nat (Suc j)))"
      by (simp_all add: counted_def)
    show ?thesis
      using allocated_grow [OF a s'] RequestHeader_grow [OF a s'(1)] r by simp
  qed
  show ?thesis
    unfolding counted_def
  proof (intro conjI allI impI)
    show "nextOpID (mem (st\<lparr>mem := s', ctxs := ctxs st @ [c]\<rparr>))
        = of_nat (length (ctxs (st\<lparr>mem := s', ctxs := ctxs st @ [c]\<rparr>)))"
      by (simp add: n cnt)
  next
    fix j assume "j < length (ctxs (st\<lparr>mem := s', ctxs := ctxs st @ [c]\<rparr>))"
    then have j: "j < length (ctxs st) \<or> j = length (ctxs st)" by auto
    then show "allocated (ctxs (st\<lparr>mem := s', ctxs := ctxs st @ [c]\<rparr>) ! j)
        (mem (st\<lparr>mem := s', ctxs := ctxs st @ [c]\<rparr>))"
      using old c by (auto simp: nth_append)
    from j show "RequestHeader (ctxs (st\<lparr>mem := s', ctxs := ctxs st @ [c]\<rparr>) ! j) opIDHeader
        (mem (st\<lparr>mem := s', ctxs := ctxs st @ [c]\<rparr>)) = Some (FormatUint (of_nat (Suc j)))"
      using old c by (auto simp: nth_append cnt ac_simps)
  qed
qed

lemma counted_step:
  assumes "counted st" and "creates call"
  shows "counted (step call st)"
proof (cases call)
  case (CallNew cid)
  show ?thesis
    unfolding CallNew step.simps NewFContext_eq Let_def prod.case
    by (rule counted_add [OF assms(1)])
       (simp_all add: allocated_def RequestHeader_def strMapGet_def nth_append header_names_differ)
next
  case (CallClone i)
  show ?thesis
  proof (cases "i < length (ctxs st)")
    case False
    then show ?thesis using assms(1) by (simp add: CallClone)
  next
    case True
    with assms(1) have a: "allocated (ctxs st ! i) (mem st)" by (simp add: counted_def)
    show ?thesis
      unfolding CallClone step.simps Clone_eq [OF a] Let_def prod.case
      using True
      by (simp, intro counted_add [OF assms(1)])
         (simp_all add: allocated_def RequestHeader_def strMapGet_def nth_append update_conv')
  qed
qed (use assms(2) in simp_all)

lemma counted_run: "counted st \<Longrightarrow> list_all creates calls \<Longrightarrow> counted (run calls st)"
  unfolding run_def
  by (induction calls arbitrary: st) (simp_all add: counted_step)

lemma step_ctxs_length: "length (ctxs (step call st)) \<le> Suc (length (ctxs st))"
  by (cases call) (simp_all add: split_beta Let_def)

lemma run_ctxs_length: "length (ctxs (run calls st)) \<le> length (ctxs st) + length calls"
  unfolding run_def
proof (induction calls arbitrary: st)
  case Nil
  show ?case by simp
next
  case (Cons call calls)
  have "length (ctxs (fold step calls (step call st))) \<le> length (ctxs (step call st)) + length calls"
    by (rule Cons.IH)
  also have "\<dots> \<le> Suc (length (ctxs st)) + length calls"
    using step_ctxs_length [of call st] by simp
  finally show ?case by simp
qed

lemma of_nat_word_inj:
  "i < 2 ^ 64 \<Longrightarrow> j < 2 ^ 64 \<Longrightarrow> (of_nat i :: uint64) = of_nat j \<Longrightarrow> i = j"
  by (simp add: word_of_nat_eq_iff take_bit_nat_eq_self)

lemma opid_text_inj:
  "inj_on (\<lambda>k. Some (FormatUint (w + of_nat (Suc k)))) {0..<n}" if "n < 2 ^ 64"
proof (rule inj_onI)
  fix i j assume i: "i \<in> {0..<n}" and j: "j \<in> {0..<n}"
    and e: "Some (FormatUint (w + of_nat (Suc i))) = Some (FormatUint (w + of_nat (Suc j)))"
  from e have "w + of_nat (Suc i) = w + of_nat (Suc j)" by (auto dest: FormatUint_inj)
  then have "(of_nat (Suc i) :: uint64) = of_nat (Suc j)" by simp
  moreover have "Suc i < 2 ^ 64" "Suc j < 2 ^ 64" using i j that by auto
  ultimately have "Suc i = Suc j" by (rule of_nat_word_inj [rotated 2])
  then show "i = j" by simp
qed

section \<open>What every program preserves\<close>

text \<open>
  Every call preserves \<open>sound\<close> and \<open>apart\<close>, and \<open>timeoutsKept\<close> when the call keeps the
  timeout.
\<close>

lemma entriesFor_one: "distinct (map fst m) \<Longrightarrow> k \<in> fst ` set m \<Longrightarrow> entriesFor k m = 1"
proof (induction m)
  case Nil
  then show ?case by simp
next
  case (Cons e m)
  show ?case
  proof (cases "fst e = k")
    case True
    with Cons.prems have "k \<notin> fst ` set m" by auto
    then have "filter (\<lambda>e. fst e = k) m = []" by (auto simp: filter_empty_conv)
    with True show ?thesis by (simp add: entriesFor_def)
  next
    case False
    with Cons show ?thesis by (auto simp: entriesFor_def)
  qed
qed

lemma reservedKept_update: "reservedKept m \<Longrightarrow> reservedKept (AList.update k v m)"
  by (auto simp: reservedKept_def distinct_update dom_update)

lemma reservedKept_clearjunk: "reservedKept m \<Longrightarrow> reservedKept (AList.clearjunk m)"
  by (simp add: reservedKept_def dom_clearjunk)

lemma reservedKept_new:
  "reservedKept [(cidHeader, cid), (opIDHeader, opid), (timeoutHeader, t)]"
  by (simp add: reservedKept_def header_names_differ)

lemma sound_start: "sound (startProgram g)"
  by (simp add: sound_def startProgram_def)

lemma sound_add_ctx:
  assumes st: "sound st"
    and s': "strMaps s' = strMaps (mem st) @ [m1, m2]" "propMaps s' = propMaps (mem st) @ [p]"
    and m1: "reservedKept m1"
    and c: "c = \<lparr>requestHeaders = length (strMaps (mem st)),
                responseHeaders = Suc (length (strMaps (mem st))),
                ephemeralProperties = length (propMaps (mem st))\<rparr>"
  shows "sound (st\<lparr>mem := s', ctxs := ctxs st @ [c]\<rparr>)"
proof -
  have old: "allocated d (mem st)" "reservedKept (strMaps (mem st) ! requestHeaders d)"
    if "d \<in> set (ctxs st)" for d
    using st that by (auto simp: sound_def)
  have lt: "requestHeaders d < length (strMaps (mem st))" "responseHeaders d < length (strMaps (mem st))"
    if "d \<in> set (ctxs st)" for d
    using old(1) [OF that] by (simp_all add: allocated_def)
  have hl: "h < length (strMaps (mem st))" if "h \<in> set (headerCopies st)" for h
    using st that by (auto simp: sound_def)
  have 1: "allocated d s' \<and> reservedKept (strMaps s' ! requestHeaders d)"
    if "d \<in> set (ctxs st @ [c])" for d
  proof (cases "d = c")
    case True
    then show ?thesis by (simp add: c allocated_def s' m1 nth_append)
  next
    case False
    with that have d: "d \<in> set (ctxs st)" by simp
    from old [OF d] lt [OF d] show ?thesis
      by (simp add: allocated_def s' nth_append)
  qed
  have 2: "h < length (strMaps s')" if "h \<in> set (headerCopies st)" for h
    using hl [OF that] by (simp add: s')
  have 3: "h \<noteq> requestHeaders d" if "d \<in> set (ctxs st @ [c])" "h \<in> set (headerCopies st)" for d h
    using that st hl [OF that(2)] by (auto simp: sound_def c)
  have 4: "responseHeaders d \<noteq> requestHeaders d'"
    if dd: "d \<in> set (ctxs st @ [c])" "d' \<in> set (ctxs st @ [c])" for d d'
  proof -
    consider "d \<in> set (ctxs st)" "d' \<in> set (ctxs st)" | "d = c" "d' \<in> set (ctxs st)"
      | "d \<in> set (ctxs st)" "d' = c" | "d = c" "d' = c"
      using dd by auto
    then show ?thesis
    proof cases
      case 1
      with st show ?thesis by (auto simp: sound_def)
    next
      case 2
      with lt(1) [of d'] show ?thesis by (simp add: c)
    next
      case 3
      with lt(2) [of d] show ?thesis by (simp add: c)
    next
      case 4
      then show ?thesis by (simp add: c)
    qed
  qed
  show ?thesis
    unfolding sound_def using 1 2 3 4 by simp
qed

lemma sound_add_copy:
  assumes st: "sound st"
    and s': "strMaps s' = strMaps (mem st) @ [m]" "propMaps s' = propMaps (mem st)"
  shows "sound (st\<lparr>mem := s', headerCopies := headerCopies st @ [length (strMaps (mem st))]\<rparr>)"
proof -
  have old: "allocated d (mem st)" "reservedKept (strMaps (mem st) ! requestHeaders d)"
    if "d \<in> set (ctxs st)" for d
    using st that by (auto simp: sound_def)
  have lt: "requestHeaders d < length (strMaps (mem st))"
    if "d \<in> set (ctxs st)" for d
    using old(1) [OF that] by (simp add: allocated_def)
  have 1: "allocated d s' \<and> reservedKept (strMaps s' ! requestHeaders d)"
    if "d \<in> set (ctxs st)" for d
    using old [OF that] lt [OF that] by (simp add: allocated_def s' nth_append)
  have 2: "h < length (strMaps s')" if "h \<in> set (headerCopies st @ [length (strMaps (mem st))])" for h
    using that st by (auto simp: sound_def s')
  have 3: "h \<noteq> requestHeaders d"
    if "d \<in> set (ctxs st)" "h \<in> set (headerCopies st @ [length (strMaps (mem st))])" for d h
    using that st lt [OF that(1)] by (auto simp: sound_def)
  have 4: "responseHeaders d \<noteq> requestHeaders d'"
    if "d \<in> set (ctxs st)" "d' \<in> set (ctxs st)" for d d'
    using that st by (auto simp: sound_def)
  show ?thesis
    unfolding sound_def using 1 2 3 4 by simp
qed

lemma sound_add_property_copy:
  assumes st: "sound st"
    and s': "strMaps s' = strMaps (mem st)" "propMaps s' = propMaps (mem st) @ [p]"
  shows "sound (st\<lparr>mem := s', propertyCopies := propertyCopies st @ [a]\<rparr>)"
  using st by (auto simp: sound_def allocated_def s')

lemma reservedKept_list_update:
  assumes "reservedKept (xs ! a)"
  shows "reservedKept (xs[i := AList.update k v (xs ! i)] ! a)"
proof (cases "i < length xs")
  case True
  with assms show ?thesis by (cases "a = i") (simp_all add: reservedKept_update)
next
  case False
  then have "xs[i := AList.update k v (xs ! i)] = xs" by (simp add: list_update_beyond)
  with assms show ?thesis by simp
qed

lemma sound_mutate:
  assumes st: "sound st"
  shows "sound (st\<lparr>mem := mutate mu c (mem st)\<rparr>)"
proof -
  have len: "length (strMaps (mutate mu c (mem st))) = length (strMaps (mem st))"
    "length (propMaps (mutate mu c (mem st))) = length (propMaps (mem st))"
    by (cases mu; simp add: AddRequestHeader_def AddResponseHeader_def SetTimeout_def
        AddEphemeralProperty_def strMapPut_def propMapPut_def)+
  have kept: "reservedKept (strMaps (mutate mu c (mem st)) ! a)"
    if "reservedKept (strMaps (mem st) ! a)" for a
    using that
    by (cases mu) (simp_all add: AddRequestHeader_def AddResponseHeader_def SetTimeout_def
        AddEphemeralProperty_def strMapPut_def propMapPut_def reservedKept_list_update)
  show ?thesis
    unfolding sound_def using st by (auto simp: sound_def allocated_def len kept)
qed

lemma sound_write_copy:
  assumes st: "sound st" and h: "h \<in> set (headerCopies st)"
  shows "sound (st\<lparr>mem := writeStrMap h m (mem st)\<rparr>)"
  using st h by (auto simp: sound_def allocated_def writeStrMap_def)

lemma sound_write_property_copy:
  assumes st: "sound st"
  shows "sound (st\<lparr>mem := writePropMap p m (mem st)\<rparr>)"
  using st by (auto simp: sound_def allocated_def writePropMap_def)

lemma sound_allocated: "sound st \<Longrightarrow> i < length (ctxs st) \<Longrightarrow> allocated (ctxs st ! i) (mem st)"
  by (simp add: sound_def)

lemma sound_kept:
  "sound st \<Longrightarrow> i < length (ctxs st) \<Longrightarrow> reservedKept (strMaps (mem st) ! requestHeaders (ctxs st ! i))"
  by (simp add: sound_def)

lemma sound_step:
  assumes "sound st"
  shows "sound (step call st)"
proof (cases call)
  case (CallNew cid)
  show ?thesis
    unfolding CallNew step.simps NewFContext_eq Let_def prod.case
    by (rule sound_add_ctx [OF assms _ _ reservedKept_new]) simp_all
next
  case (CallClone i)
  show ?thesis
  proof (cases "i < length (ctxs st)")
    case False
    with assms show ?thesis by (simp add: CallClone)
  next
    case True
    note a = sound_allocated [OF assms True]
    have k: "reservedKept (AList.update opIDHeader (FormatUint (nextOpID (mem st) + 1))
        (AList.clearjunk (strMaps (mem st) ! requestHeaders (ctxs st ! i))))"
      by (intro reservedKept_update reservedKept_clearjunk sound_kept [OF assms True])
    show ?thesis
      unfolding CallClone step.simps Clone_eq [OF a] Let_def prod.case
      using True by (simp, intro sound_add_ctx [OF assms _ _ k]) simp_all
  qed
next
  case (CallMutate i mu)
  with assms show ?thesis by (simp add: sound_mutate)
next
  case (CallRequestHeaders i)
  show ?thesis
  proof (cases "i < length (ctxs st)")
    case False
    with assms show ?thesis by (simp add: CallRequestHeaders)
  next
    case True
    from sound_allocated [OF assms True]
    have a: "requestHeaders (ctxs st ! i) < length (strMaps (mem st))" by (simp add: allocated_def)
    show ?thesis
      unfolding CallRequestHeaders step.simps RequestHeaders_def copyStrMap_eq [OF a] Let_def prod.case
      using True by (simp, intro sound_add_copy [OF assms]) simp_all
  qed
next
  case (CallResponseHeaders i)
  show ?thesis
  proof (cases "i < length (ctxs st)")
    case False
    with assms show ?thesis by (simp add: CallResponseHeaders)
  next
    case True
    from sound_allocated [OF assms True]
    have a: "responseHeaders (ctxs st ! i) < length (strMaps (mem st))" by (simp add: allocated_def)
    show ?thesis
      unfolding CallResponseHeaders step.simps ResponseHeaders_def copyStrMap_eq [OF a] Let_def prod.case
      using True by (simp, intro sound_add_copy [OF assms]) simp_all
  qed
next
  case (CallEphemeralProperties i)
  show ?thesis
  proof (cases "i < length (ctxs st)")
    case False
    with assms show ?thesis by (simp add: CallEphemeralProperties)
  next
    case True
    from sound_allocated [OF assms True]
    have a: "ephemeralProperties (ctxs st ! i) < length (propMaps (mem st))" by (simp add: allocated_def)
    show ?thesis
      unfolding CallEphemeralProperties step.simps EphemeralProperties_eq [OF a] Let_def prod.case
      using True by (simp, intro sound_add_property_copy [OF assms]) simp_all
  qed
next
  case (WriteReturnedHeaders j m)
  with assms show ?thesis by (simp add: sound_write_copy)
next
  case (WriteReturnedProperties j m)
  with assms show ?thesis by (simp add: sound_write_property_copy)
qed

lemma sound_run: "sound st \<Longrightarrow> sound (run calls st)"
  unfolding run_def
  by (induction calls arbitrary: st) (simp_all add: sound_step)

lemma nonNegativeTimeout_cong:
  "map_of m' timeoutHeader = map_of m timeoutHeader \<Longrightarrow> nonNegativeTimeout m' = nonNegativeTimeout m"
  by (simp add: nonNegativeTimeout_def)

lemma nonNegativeTimeout_new:
  "nonNegativeTimeout [(cidHeader, cid), (opIDHeader, opid), (timeoutHeader, ''5000'')]"
  by (simp add: nonNegativeTimeout_def header_names_differ ParseInt_5000)

lemma nonNegativeTimeout_clone:
  "nonNegativeTimeout m \<Longrightarrow> nonNegativeTimeout (AList.update opIDHeader v (AList.clearjunk m))"
  using nonNegativeTimeout_cong [of "AList.update opIDHeader v (AList.clearjunk m)" m]
  by (simp add: update_conv' map_of_clearjunk header_names_differ)

lemma nonNegativeTimeout_other:
  "name \<noteq> timeoutHeader \<Longrightarrow> nonNegativeTimeout (AList.update name v m) = nonNegativeTimeout m"
  by (rule nonNegativeTimeout_cong) (simp add: update_conv')

lemma nonNegativeTimeout_set:
  assumes "0 \<le> sint d"
  shows "nonNegativeTimeout (AList.update timeoutHeader (FormatInt (quo d Millisecond)) m)"
proof -
  have "0 \<le> sint d sdiv 1000000" using assms by (simp add: sdiv_pos_divisor)
  then show ?thesis
    by (simp add: nonNegativeTimeout_def update_conv' ParseInt_FormatInt sint_quo_Millisecond)
qed

lemma timeoutsKept_start: "timeoutsKept (startProgram g)"
  by (simp add: timeoutsKept_def startProgram_def)

lemma timeoutsKept_same:
  assumes "timeoutsKept st" and "ctxs st' = ctxs st"
    and "\<And>c. c \<in> set (ctxs st) \<Longrightarrow>
           strMaps (mem st') ! requestHeaders c = strMaps (mem st) ! requestHeaders c"
  shows "timeoutsKept st'"
  using assms by (simp add: timeoutsKept_def)

lemma sound_request_lt:
  "sound st \<Longrightarrow> c \<in> set (ctxs st) \<Longrightarrow> requestHeaders c < length (strMaps (mem st))"
  by (simp add: sound_def allocated_def)

lemma timeoutsKept_add_ctx:
  assumes snd: "sound st" and tk: "timeoutsKept st"
    and s': "strMaps s' = strMaps (mem st) @ [m1, m2]"
    and m1: "nonNegativeTimeout m1"
    and c: "requestHeaders c = length (strMaps (mem st))"
  shows "timeoutsKept (st\<lparr>mem := s', ctxs := ctxs st @ [c]\<rparr>)"
proof -
  have "nonNegativeTimeout (strMaps s' ! requestHeaders d)" if "d \<in> set (ctxs st @ [c])" for d
  proof (cases "d \<in> set (ctxs st)")
    case True
    with tk have "nonNegativeTimeout (strMaps (mem st) ! requestHeaders d)"
      by (simp add: timeoutsKept_def)
    with sound_request_lt [OF snd True] show ?thesis by (simp add: s' nth_append)
  next
    case False
    with that have "d = c" by simp
    then show ?thesis by (simp add: s' c m1)
  qed
  then show ?thesis by (simp add: timeoutsKept_def)
qed

lemma timeoutsKept_grow:
  assumes snd: "sound st" and tk: "timeoutsKept st"
    and s': "strMaps (mem st') = strMaps (mem st) @ xs" and cs: "ctxs st' = ctxs st"
  shows "timeoutsKept st'"
proof (rule timeoutsKept_same [OF tk cs])
  fix c assume "c \<in> set (ctxs st)"
  from sound_request_lt [OF snd this]
  show "strMaps (mem st') ! requestHeaders c = strMaps (mem st) ! requestHeaders c"
    by (simp add: s' nth_append)
qed

lemma timeoutsKept_mutate:
  assumes snd: "sound st" and tk: "timeoutsKept st" and i: "i < length (ctxs st)"
    and keep: "keepsTimeout (CallMutate i mu)"
  shows "timeoutsKept (st\<lparr>mem := mutate mu (ctxs st ! i) (mem st)\<rparr>)"
proof -
  let ?c = "ctxs st ! i"
  have ci: "?c \<in> set (ctxs st)" using i by simp
  have lt: "requestHeaders ?c < length (strMaps (mem st))" by (rule sound_request_lt [OF snd ci])
  have old: "nonNegativeTimeout (strMaps (mem st) ! requestHeaders d)" if "d \<in> set (ctxs st)" for d
    using tk that by (simp add: timeoutsKept_def)
  have cross: "responseHeaders ?c \<noteq> requestHeaders d" if "d \<in> set (ctxs st)" for d
    using snd ci that by (simp add: sound_def)
  have "nonNegativeTimeout (strMaps (mutate mu ?c (mem st)) ! requestHeaders d)"
    if d: "d \<in> set (ctxs st)" for d
  proof (cases mu)
    case (DoAddRequestHeader name val)
    with keep have n: "name \<noteq> timeoutHeader" by simp
    show ?thesis
      using old [OF d] lt
      by (cases "requestHeaders d = requestHeaders ?c")
         (simp_all add: DoAddRequestHeader AddRequestHeader_def strMapPut_def
            nonNegativeTimeout_other [OF n])
  next
    case (DoAddResponseHeader name val)
    show ?thesis
      using old [OF d] cross [OF d]
      by (simp add: DoAddResponseHeader AddResponseHeader_def strMapPut_def)
  next
    case (DoSetTimeout t)
    with keep have t: "0 \<le> sint t" by simp
    show ?thesis
      using old [OF d] lt
      by (cases "requestHeaders d = requestHeaders ?c")
         (simp_all add: DoSetTimeout SetTimeout_def strMapPut_def nonNegativeTimeout_set [OF t])
  next
    case (DoAddEphemeralProperty key val)
    show ?thesis
      using old [OF d] by (simp add: DoAddEphemeralProperty AddEphemeralProperty_def propMapPut_def)
  qed
  then show ?thesis by (simp add: timeoutsKept_def)
qed

lemma timeoutsKept_step:
  assumes snd: "sound st" and tk: "timeoutsKept st" and keep: "keepsTimeout call"
  shows "timeoutsKept (step call st)"
proof (cases call)
  case (CallNew cid)
  show ?thesis
    unfolding CallNew step.simps NewFContext_eq Let_def prod.case
    by (rule timeoutsKept_add_ctx [OF snd tk _ nonNegativeTimeout_new]) simp_all
next
  case (CallClone i)
  show ?thesis
  proof (cases "i < length (ctxs st)")
    case False
    with tk show ?thesis by (simp add: CallClone)
  next
    case True
    note a = sound_allocated [OF snd True]
    have "nonNegativeTimeout (strMaps (mem st) ! requestHeaders (ctxs st ! i))"
      using tk True by (simp add: timeoutsKept_def)
    note k = nonNegativeTimeout_clone [OF this]
    show ?thesis
      unfolding CallClone step.simps Clone_eq [OF a] Let_def prod.case
      using True
      by (simp, intro timeoutsKept_add_ctx [OF snd tk _ k]) simp_all
  qed
next
  case (CallMutate i mu)
  show ?thesis
  proof (cases "i < length (ctxs st)")
    case False
    with tk show ?thesis by (simp add: CallMutate)
  next
    case True
    with timeoutsKept_mutate [OF snd tk True] keep show ?thesis by (simp add: CallMutate)
  qed
next
  case (CallRequestHeaders i)
  show ?thesis
  proof (cases "i < length (ctxs st)")
    case False
    with tk show ?thesis by (simp add: CallRequestHeaders)
  next
    case True
    from sound_allocated [OF snd True]
    have a: "requestHeaders (ctxs st ! i) < length (strMaps (mem st))" by (simp add: allocated_def)
    show ?thesis
      unfolding CallRequestHeaders step.simps RequestHeaders_def copyStrMap_eq [OF a] Let_def prod.case
      using True
      by (simp, intro timeoutsKept_grow [OF snd tk]) simp_all
  qed
next
  case (CallResponseHeaders i)
  show ?thesis
  proof (cases "i < length (ctxs st)")
    case False
    with tk show ?thesis by (simp add: CallResponseHeaders)
  next
    case True
    from sound_allocated [OF snd True]
    have a: "responseHeaders (ctxs st ! i) < length (strMaps (mem st))" by (simp add: allocated_def)
    show ?thesis
      unfolding CallResponseHeaders step.simps ResponseHeaders_def copyStrMap_eq [OF a] Let_def prod.case
      using True
      by (simp, intro timeoutsKept_grow [OF snd tk]) simp_all
  qed
next
  case (CallEphemeralProperties i)
  show ?thesis
  proof (cases "i < length (ctxs st)")
    case False
    with tk show ?thesis by (simp add: CallEphemeralProperties)
  next
    case True
    from sound_allocated [OF snd True]
    have a: "ephemeralProperties (ctxs st ! i) < length (propMaps (mem st))" by (simp add: allocated_def)
    show ?thesis
      unfolding CallEphemeralProperties step.simps EphemeralProperties_eq [OF a] Let_def prod.case
      using True
      by (simp, intro timeoutsKept_grow [OF snd tk, where xs = "[]"]) simp_all
  qed
next
  case (WriteReturnedHeaders j m)
  show ?thesis
  proof (cases "j < length (headerCopies st)")
    case False
    with tk show ?thesis by (simp add: WriteReturnedHeaders)
  next
    case True
    have ne: "headerCopies st ! j \<noteq> requestHeaders c" if "c \<in> set (ctxs st)" for c
      using snd True that by (simp add: sound_def)
    have "timeoutsKept (st\<lparr>mem := writeStrMap (headerCopies st ! j) m (mem st)\<rparr>)"
    proof (rule timeoutsKept_same [OF tk])
      show "ctxs (st\<lparr>mem := writeStrMap (headerCopies st ! j) m (mem st)\<rparr>) = ctxs st" by simp
    next
      fix c assume "c \<in> set (ctxs st)"
      from ne [OF this]
      show "strMaps (mem (st\<lparr>mem := writeStrMap (headerCopies st ! j) m (mem st)\<rparr>)) ! requestHeaders c
          = strMaps (mem st) ! requestHeaders c"
        by (simp add: writeStrMap_def)
    qed
    with True show ?thesis by (simp add: WriteReturnedHeaders)
  qed
next
  case (WriteReturnedProperties j m)
  have "timeoutsKept (st\<lparr>mem := writePropMap a m (mem st)\<rparr>)" for a
    by (rule timeoutsKept_same [OF tk]) (simp_all add: writePropMap_def)
  with tk show ?thesis by (simp add: WriteReturnedProperties)
qed

lemma timeoutsKept_run:
  "sound st \<Longrightarrow> timeoutsKept st \<Longrightarrow> list_all keepsTimeout calls \<Longrightarrow> timeoutsKept (run calls st)"
  unfolding run_def
  by (induction calls arbitrary: st) (simp_all add: sound_step timeoutsKept_step)

lemma apart_start: "apart (startProgram g)"
  by (simp add: apart_def startProgram_def)

lemma apart_add_ctx:
  assumes st: "apart st"
    and s': "strMaps s' = strMaps (mem st) @ [m1, m2]" "propMaps s' = propMaps (mem st) @ [p]"
    and c: "c = \<lparr>requestHeaders = length (strMaps (mem st)),
                responseHeaders = Suc (length (strMaps (mem st))),
                ephemeralProperties = length (propMaps (mem st))\<rparr>"
  shows "apart (st\<lparr>mem := s', ctxs := ctxs st @ [c]\<rparr>)"
  using st unfolding apart_def allocated_def by (auto simp: s' c)

lemma apart_add_copy:
  assumes st: "apart st"
    and s': "strMaps s' = strMaps (mem st) @ [m]" "propMaps s' = propMaps (mem st)"
  shows "apart (st\<lparr>mem := s', headerCopies := headerCopies st @ [length (strMaps (mem st))]\<rparr>)"
  using st unfolding apart_def allocated_def by (auto simp: s')

lemma apart_add_property_copy:
  assumes st: "apart st"
    and s': "strMaps s' = strMaps (mem st)" "propMaps s' = propMaps (mem st) @ [p]"
  shows "apart (st\<lparr>mem := s', propertyCopies := propertyCopies st @ [length (propMaps (mem st))]\<rparr>)"
  using st unfolding apart_def allocated_def by (auto simp: s')

lemma mutate_lengths:
  "length (strMaps (mutate mu c s)) = length (strMaps s)"
  "length (propMaps (mutate mu c s)) = length (propMaps s)"
  by (cases mu; simp add: AddRequestHeader_def AddResponseHeader_def SetTimeout_def
      AddEphemeralProperty_def strMapPut_def propMapPut_def)+

lemma apart_same_lengths:
  assumes "apart st" and "length (strMaps s') = length (strMaps (mem st))"
    and "length (propMaps s') = length (propMaps (mem st))"
  shows "apart (st\<lparr>mem := s'\<rparr>)"
  using assms unfolding apart_def allocated_def by simp

lemma apart_step:
  assumes "apart st"
  shows "apart (step call st)"
proof (cases call)
  case (CallNew cid)
  show ?thesis
    unfolding CallNew step.simps NewFContext_eq Let_def prod.case
    by (rule apart_add_ctx [OF assms]) simp_all
next
  case (CallClone i)
  show ?thesis
  proof (cases "i < length (ctxs st)")
    case False
    with assms show ?thesis by (simp add: CallClone)
  next
    case True
    with assms have a: "allocated (ctxs st ! i) (mem st)" by (simp add: apart_def)
    show ?thesis
      unfolding CallClone step.simps Clone_eq [OF a] Let_def prod.case
      using True by (simp, intro apart_add_ctx [OF assms]) simp_all
  qed
next
  case (CallMutate i mu)
  with assms show ?thesis by (simp add: apart_same_lengths mutate_lengths)
next
  case (CallRequestHeaders i)
  show ?thesis
  proof (cases "i < length (ctxs st)")
    case False
    with assms show ?thesis by (simp add: CallRequestHeaders)
  next
    case True
    with assms have a: "requestHeaders (ctxs st ! i) < length (strMaps (mem st))"
      by (simp add: apart_def allocated_def)
    show ?thesis
      unfolding CallRequestHeaders step.simps RequestHeaders_def copyStrMap_eq [OF a] Let_def prod.case
      using True by (simp, intro apart_add_copy [OF assms]) simp_all
  qed
next
  case (CallResponseHeaders i)
  show ?thesis
  proof (cases "i < length (ctxs st)")
    case False
    with assms show ?thesis by (simp add: CallResponseHeaders)
  next
    case True
    with assms have a: "responseHeaders (ctxs st ! i) < length (strMaps (mem st))"
      by (simp add: apart_def allocated_def)
    show ?thesis
      unfolding CallResponseHeaders step.simps ResponseHeaders_def copyStrMap_eq [OF a] Let_def prod.case
      using True by (simp, intro apart_add_copy [OF assms]) simp_all
  qed
next
  case (CallEphemeralProperties i)
  show ?thesis
  proof (cases "i < length (ctxs st)")
    case False
    with assms show ?thesis by (simp add: CallEphemeralProperties)
  next
    case True
    with assms have a: "ephemeralProperties (ctxs st ! i) < length (propMaps (mem st))"
      by (simp add: apart_def allocated_def)
    show ?thesis
      unfolding CallEphemeralProperties step.simps EphemeralProperties_eq [OF a] Let_def prod.case
      using True by (simp, intro apart_add_property_copy [OF assms]) simp_all
  qed
next
  case (WriteReturnedHeaders j m)
  with assms show ?thesis by (simp add: apart_same_lengths writeStrMap_def)
next
  case (WriteReturnedProperties j m)
  with assms show ?thesis by (simp add: apart_same_lengths writePropMap_def)
qed

lemma apart_run: "apart st \<Longrightarrow> apart (run calls st)"
  unfolding run_def
  by (induction calls arbitrary: st) (simp_all add: apart_step)

lemma write_contents_other:
  "h \<noteq> requestHeaders c \<Longrightarrow> h \<noteq> responseHeaders c \<Longrightarrow>
   contents c (writeStrMap h m s) = contents c s"
  by (simp add: contents_def writeStrMap_def)

lemma write_property_contents_other:
  "p \<noteq> ephemeralProperties c \<Longrightarrow> contents c (writePropMap p m s) = contents c s"
  by (simp add: contents_def writePropMap_def)

lemma returned_maps_apart:
  fixes st :: "('k, 'v) program"
  assumes "st = run calls (startProgram g)" and c: "c \<in> set (ctxs st)"
  shows "(\<forall>h \<in> set (headerCopies st).
            (\<forall>m. contents c (writeStrMap h m (mem st)) = contents c (mem st))
            \<and> (\<forall>mu. strMaps (mutate mu c (mem st)) ! h = strMaps (mem st) ! h))
       \<and> (\<forall>p \<in> set (propertyCopies st).
            (\<forall>m. contents c (writePropMap p m (mem st)) = contents c (mem st))
            \<and> (\<forall>mu. propMaps (mutate mu c (mem st)) ! p = propMaps (mem st) ! p))"
proof -
  have a: "apart st" unfolding assms(1) using apart_start by (rule apart_run)
  have h: "h \<noteq> requestHeaders c \<and> h \<noteq> responseHeaders c" if "h \<in> set (headerCopies st)" for h
    using a c that by (auto simp: apart_def)
  have p: "p \<noteq> ephemeralProperties c" if "p \<in> set (propertyCopies st)" for p
    using a c that by (auto simp: apart_def)
  show ?thesis
    using h p by (simp add: write_contents_other write_property_contents_other
        mutate_strMaps_other mutate_propMaps_other)
qed

section \<open>The example process\<close>

text \<open>
  The example context and process, and the programs used as witnesses, evaluated.
\<close>

lemma exampleNew:
  "NewFContext ''abc'' exampleProc =
     (\<lparr>requestHeaders = 0, responseHeaders = 1, ephemeralProperties = 0\<rparr>,
      \<lparr>strMaps = [[(''_cid'', ''abc''), (''_opid'', ''1''), (''_timeout'', ''5000'')], []],
       propMaps = [[]], nextOpID = 1, nuid = exampleNuid, nuidDrawn = 0\<rparr>)"
  by (simp add: NewFContext_eq exampleProc_def startProc_def cidHeader_def opIDHeader_def
      timeoutHeader_def FormatUint_def digits10.simps digit_char_def)

lemma exampleCtx_eq:
  "exampleCtx = \<lparr>requestHeaders = 0, responseHeaders = 1, ephemeralProperties = 0\<rparr>"
  by (simp add: exampleCtx_def exampleNew)

lemma exampleMem_eq:
  "exampleMem =
     \<lparr>strMaps = [[(''_cid'', ''abc''), (''_opid'', ''1''), (''_timeout'', ''5000'')], []],
      propMaps = [[]], nextOpID = 1, nuid = exampleNuid, nuidDrawn = 0\<rparr>"
  by (simp add: exampleMem_def exampleNew)

lemma example_allocated: "allocated exampleCtx exampleMem"
  by (simp add: allocated_def exampleCtx_eq exampleMem_eq)

lemma exampleCorrupted:
  "RequestHeader exampleCtx timeoutHeader
     (AddRequestHeader exampleCtx timeoutHeader ''soon'' exampleMem) = Some ''soon''"
  by (simp add: exampleCtx_eq exampleMem_eq RequestHeader_def AddRequestHeader_def strMapGet_strMapPut)

lemma not_signed_decimal_soon: "\<not> signed_decimal ''soon''"
  by (simp add: signed_decimal_def decimal_def is_digit_def)

lemma example_opid:
  "RequestHeader exampleCtx opIDHeader exampleMem = Some ''1''"
  by (simp add: exampleCtx_eq exampleMem_eq RequestHeader_def strMapGet_def opIDHeader_def)

lemma decimal_1: "decimal ''1'' \<and> dec_val 0 ''1'' = 1"
  by (simp add: decimal_def is_digit_def dec_val_def digit_val_def)

lemma example_overwritten:
  "setRequestOpID exampleCtx 2 exampleMem =
     \<lparr>strMaps = [[(''_cid'', ''abc''), (''_opid'', ''2''), (''_timeout'', ''5000'')], []],
      propMaps = [[]], nextOpID = 1, nuid = exampleNuid, nuidDrawn = 0\<rparr>"
  by (simp add: setRequestOpID_def AddRequestHeader_def strMapPut_def exampleCtx_eq exampleMem_eq
      opIDHeader_def FormatUint_small)

lemma example_overwritten_allocated: "allocated exampleCtx (setRequestOpID exampleCtx 2 exampleMem)"
  by (simp only: example_overwritten) (simp add: allocated_def exampleCtx_eq)

lemma example_overwritten_clone:
  "Clone exampleCtx (setRequestOpID exampleCtx 2 exampleMem) =
     (\<lparr>requestHeaders = 2, responseHeaders = 3, ephemeralProperties = 1\<rparr>,
      \<lparr>strMaps = [[(''_cid'', ''abc''), (''_opid'', ''2''), (''_timeout'', ''5000'')], [],
                  [(''_cid'', ''abc''), (''_opid'', ''2''), (''_timeout'', ''5000'')], []],
       propMaps = [[], []], nextOpID = 2, nuid = exampleNuid, nuidDrawn = 0\<rparr>)"
  by (subst Clone_eq [OF example_overwritten_allocated], simp only: example_overwritten)
     (simp add: exampleCtx_eq opIDHeader_def FormatUint_small)

lemma example_run:
  "run [CallNew ''abc'', CallClone 0] exampleProgram =
     \<lparr>mem = \<lparr>strMaps = [[(''_cid'', ''abc''), (''_opid'', ''1''), (''_timeout'', ''5000'')], [],
                        [(''_cid'', ''abc''), (''_opid'', ''2''), (''_timeout'', ''5000'')], []],
             propMaps = [[], []], nextOpID = 2, nuid = exampleNuid, nuidDrawn = 0\<rparr>,
      ctxs = [\<lparr>requestHeaders = 0, responseHeaders = 1, ephemeralProperties = 0\<rparr>,
              \<lparr>requestHeaders = 2, responseHeaders = 3, ephemeralProperties = 1\<rparr>],
      headerCopies = [], propertyCopies = []\<rparr>"
  by (simp add: run_def exampleProgram_def startProgram_def startProc_def NewFContext_eq Clone_eq
      allocated_def cidHeader_def opIDHeader_def timeoutHeader_def FormatUint_small)

lemma example_corrupted_run:
  "run [CallNew ''abc'', CallMutate 0 (DoAddRequestHeader timeoutHeader ''soon'')] exampleProgram =
     \<lparr>mem = \<lparr>strMaps = [[(''_cid'', ''abc''), (''_opid'', ''1''), (''_timeout'', ''soon'')], []],
             propMaps = [[]], nextOpID = 1, nuid = exampleNuid, nuidDrawn = 0\<rparr>,
      ctxs = [\<lparr>requestHeaders = 0, responseHeaders = 1, ephemeralProperties = 0\<rparr>],
      headerCopies = [], propertyCopies = []\<rparr>"
  by (simp add: run_def exampleProgram_def startProgram_def startProc_def NewFContext_eq
      AddRequestHeader_def strMapPut_def cidHeader_def opIDHeader_def timeoutHeader_def
      FormatUint_small)

lemma example_negative_run:
  "run [CallNew ''abc'', CallMutate 0 (DoSetTimeout (- Millisecond))] exampleProgram =
     \<lparr>mem = \<lparr>strMaps = [[(''_cid'', ''abc''), (''_opid'', ''1''), (''_timeout'', ''-1'')], []],
             propMaps = [[]], nextOpID = 1, nuid = exampleNuid, nuidDrawn = 0\<rparr>,
      ctxs = [\<lparr>requestHeaders = 0, responseHeaders = 1, ephemeralProperties = 0\<rparr>],
      headerCopies = [], propertyCopies = []\<rparr>"
proof -
  have "quo (- Millisecond) Millisecond = - 1" by (simp add: quo_def Millisecond_def)
  then show ?thesis
    by (simp add: run_def exampleProgram_def startProgram_def startProc_def NewFContext_eq
      SetTimeout_def strMapPut_def cidHeader_def opIDHeader_def timeoutHeader_def
      FormatUint_small FormatInt_minus_1)
qed

lemma example_copy_run:
  "run [CallNew ''abc'', CallRequestHeaders 0] exampleProgram =
     \<lparr>mem = \<lparr>strMaps = [[(''_cid'', ''abc''), (''_opid'', ''1''), (''_timeout'', ''5000'')], [],
                        [(''_cid'', ''abc''), (''_opid'', ''1''), (''_timeout'', ''5000'')]],
             propMaps = [[]], nextOpID = 1, nuid = exampleNuid, nuidDrawn = 0\<rparr>,
      ctxs = [\<lparr>requestHeaders = 0, responseHeaders = 1, ephemeralProperties = 0\<rparr>],
      headerCopies = [2], propertyCopies = []\<rparr>"
  by (simp add: run_def exampleProgram_def startProgram_def startProc_def NewFContext_eq
      RequestHeaders_def copyStrMap_eq cidHeader_def opIDHeader_def timeoutHeader_def
      FormatUint_small)

section \<open>The claims\<close>

text \<open>
  One theorem for each claim, with a witness where the theorem has a hypothesis, and a
  counterexample where the claim holds only in an amended form.
\<close>

text \<open>
  Claim C1, as the code has it. The clone \<open>B\<close> of a context \<open>A\<close> has \<open>A\<close>'s correlation
  id, the freshly drawn op id under \<^verbatim>\<open>_opid\<close>, \<open>A\<close>'s value under every other request
  header, and \<open>A\<close>'s response headers and ephemeral properties. Cloning leaves \<open>A\<close> as it
  was, and afterwards no writing method called on one of the two changes what the other
  holds. The fresh op id differs from \<open>A\<close>'s when \<open>A\<close>'s is the text of a counter value
  the generator has reached and the counter is not at its last value.
\<close>

theorem Clone_copies_and_isolates:
  assumes "allocated A s" and "Clone A s = (B, s')"
  shows "CorrelationID B s' = CorrelationID A s
       \<and> RequestHeader B opIDHeader s' = Some (fst (getNextOpID s))
       \<and> (\<forall>name. name \<noteq> opIDHeader \<longrightarrow> RequestHeader B name s' = RequestHeader A name s)
       \<and> (\<forall>name. ResponseHeader B name s' = ResponseHeader A name s)
       \<and> (\<forall>key. EphemeralProperty B key s' = EphemeralProperty A key s)
       \<and> contents A s' = contents A s
       \<and> (\<forall>mu. contents B (mutate mu A s') = contents B s')
       \<and> (\<forall>mu. contents A (mutate mu B s') = contents A s')
       \<and> (\<forall>w. RequestHeader A opIDHeader s = Some (FormatUint w) \<and> w \<le> nextOpID s
                \<and> nextOpID s \<noteq> - 1 \<longrightarrow>
              RequestHeader B opIDHeader s' \<noteq> RequestHeader A opIDHeader s')"
proof -
  from assms(1) have a: "requestHeaders A < length (strMaps s)"
    "responseHeaders A < length (strMaps s)" "ephemeralProperties A < length (propMaps s)"
    by (simp_all add: allocated_def)
  from assms have B: "B = \<lparr>requestHeaders = length (strMaps s),
      responseHeaders = Suc (length (strMaps s)), ephemeralProperties = length (propMaps s)\<rparr>"
    and s': "s' = s\<lparr>strMaps := strMaps s @
            [AList.update opIDHeader (FormatUint (nextOpID s + 1))
               (AList.clearjunk (strMaps s ! requestHeaders A)),
             AList.clearjunk (strMaps s ! responseHeaders A)],
        propMaps := propMaps s @ [AList.clearjunk (propMaps s ! ephemeralProperties A)],
        nextOpID := nextOpID s + 1\<rparr>"
    by (simp_all add: Clone_eq)
  have rqB: "strMaps s' ! requestHeaders B =
      AList.update opIDHeader (FormatUint (nextOpID s + 1)) (AList.clearjunk (strMaps s ! requestHeaders A))"
    by (simp add: B s' nth_append)
  have rsB: "strMaps s' ! responseHeaders B = AList.clearjunk (strMaps s ! responseHeaders A)"
    by (simp add: B s' nth_append)
  have epB: "propMaps s' ! ephemeralProperties B = AList.clearjunk (propMaps s ! ephemeralProperties A)"
    by (simp add: B s' nth_append)
  have old: "strMaps s' ! requestHeaders A = strMaps s ! requestHeaders A"
    "strMaps s' ! responseHeaders A = strMaps s ! responseHeaders A"
    "propMaps s' ! ephemeralProperties A = propMaps s ! ephemeralProperties A"
    using a by (simp_all add: s' nth_append)
  have other: "RequestHeader B name s' = RequestHeader A name s" if "name \<noteq> opIDHeader" for name
    using that by (simp add: RequestHeader_def strMapGet_def rqB map_of_update_other map_of_clearjunk)
  have 1: "CorrelationID B s' = CorrelationID A s"
    using other [of cidHeader] by (simp add: CorrelationID_def RequestHeader_def header_names_differ)
  have 2: "RequestHeader B opIDHeader s' = Some (fst (getNextOpID s))"
    by (simp add: RequestHeader_def strMapGet_def rqB update_conv' getNextOpID_def)
  have 4: "ResponseHeader B name s' = ResponseHeader A name s" for name
    by (simp add: ResponseHeader_def strMapGet_def rsB map_of_clearjunk)
  have 5: "EphemeralProperty B key s' = EphemeralProperty A key s" for key
    by (simp add: EphemeralProperty_def propMapGet_def epB map_of_clearjunk)
  have 6: "contents A s' = contents A s"
    by (rule contents_eqI) (rule old)+
  have 7: "contents B (mutate mu A s') = contents B s'" for mu
    using a by (intro mutate_contents_other) (simp_all add: B)
  have 8: "contents A (mutate mu B s') = contents A s'" for mu
    using a by (intro mutate_contents_other) (simp_all add: B)
  have 9: "RequestHeader B opIDHeader s' \<noteq> RequestHeader A opIDHeader s'"
    if h: "RequestHeader A opIDHeader s = Some (FormatUint w)" and le: "w \<le> nextOpID s"
      and nw: "nextOpID s \<noteq> - 1" for w
  proof -
    have "RequestHeader A opIDHeader s' = Some (FormatUint w)"
      using h by (simp add: RequestHeader_def strMapGet_def old)
    moreover have "w \<noteq> nextOpID s + 1" using le counter_grows [OF nw] by auto
    then have "FormatUint (nextOpID s + 1) \<noteq> FormatUint w" using FormatUint_inj by blast
    ultimately show ?thesis using 2 by (simp add: getNextOpID_def)
  qed
  from 1 2 other 4 5 6 7 8 9 show ?thesis by blast
qed

theorem Clone_copies_and_isolates_witness:
  "allocated exampleCtx exampleMem
   \<and> Clone exampleCtx exampleMem = (fst (Clone exampleCtx exampleMem), snd (Clone exampleCtx exampleMem))
   \<and> cidHeader \<noteq> opIDHeader
   \<and> RequestHeader exampleCtx opIDHeader exampleMem = Some (FormatUint 1)
   \<and> 1 \<le> nextOpID exampleMem \<and> nextOpID exampleMem \<noteq> - 1
   \<and> RequestHeader (fst (Clone exampleCtx exampleMem)) cidHeader (snd (Clone exampleCtx exampleMem))
       = RequestHeader exampleCtx cidHeader exampleMem
   \<and> RequestHeader (fst (Clone exampleCtx exampleMem)) opIDHeader (snd (Clone exampleCtx exampleMem))
       \<noteq> RequestHeader exampleCtx opIDHeader (snd (Clone exampleCtx exampleMem))"
proof -
  have h1: "allocated exampleCtx exampleMem" by (rule example_allocated)
  have h2: "Clone exampleCtx exampleMem = (fst (Clone exampleCtx exampleMem), snd (Clone exampleCtx exampleMem))"
    by simp
  have h3: "cidHeader \<noteq> opIDHeader" by (rule header_names_differ)
  have h4: "RequestHeader exampleCtx opIDHeader exampleMem = Some (FormatUint 1)"
    by (simp add: RequestHeader_def strMapGet_def exampleCtx_eq exampleMem_eq opIDHeader_def FormatUint_small)
  have h5: "1 \<le> nextOpID exampleMem" "nextOpID exampleMem \<noteq> - 1"
    by (simp_all add: exampleMem_eq)
  note t = Clone_copies_and_isolates [OF h1 h2]
  from t h3 have a: "RequestHeader (fst (Clone exampleCtx exampleMem)) cidHeader (snd (Clone exampleCtx exampleMem))
       = RequestHeader exampleCtx cidHeader exampleMem" by blast
  from t h4 h5 have b: "RequestHeader (fst (Clone exampleCtx exampleMem)) opIDHeader (snd (Clone exampleCtx exampleMem))
       \<noteq> RequestHeader exampleCtx opIDHeader (snd (Clone exampleCtx exampleMem))" by blast
  from h1 h2 h3 h4 h5 a b show ?thesis by blast
qed

text \<open>
  Claim C1 as stated fails where the op id of \<open>A\<close> is not one the generator has handed
  out: after \<^verbatim>\<open>setRequestOpID(A, 2)\<close> on the first context of a process, the clone draws
  2 as well, and both contexts carry the op id \<^verbatim>\<open>"2"\<close>.
\<close>

theorem Clone_same_opid_counterexample:
  "RequestHeader (fst (Clone exampleCtx (setRequestOpID exampleCtx 2 exampleMem))) opIDHeader
     (snd (Clone exampleCtx (setRequestOpID exampleCtx 2 exampleMem))) = Some ''2''
   \<and> RequestHeader exampleCtx opIDHeader
     (snd (Clone exampleCtx (setRequestOpID exampleCtx 2 exampleMem))) = Some ''2''"
  by (simp only: example_overwritten_clone)
     (simp add: RequestHeader_def strMapGet_def exampleCtx_eq opIDHeader_def)

text \<open>
  Claim C2, as the code has it. In a program of fewer than \<open>2 ^ 64\<close> constructions and
  clones, the context created \<open>j\<close>-th (counting from zero) carries the text of the counter
  value \<open>j + 1\<close> as its op id, later contexts carry larger counter values, and the op ids
  are pairwise distinct. A draw at a counter below its last value returns the text of the
  next, larger value; the first \<open>n < 2 ^ 64\<close> draws of a process return the texts of
  \<open>1, \<dots>, n\<close>, all different.
\<close>

theorem op_ids_increase_until_wrap:
  fixes st :: "('k, 'v) program"
  assumes "list_all creates calls" and "length calls < 2 ^ 64"
    and "st = run calls (startProgram g)"
  shows "(\<forall>j < length (ctxs st).
            RequestHeader (ctxs st ! j) opIDHeader (mem st) = Some (FormatUint (of_nat (Suc j))))
       \<and> (\<forall>i j. i < j \<and> j < length (ctxs st) \<longrightarrow> (of_nat (Suc i) :: uint64) < of_nat (Suc j))
       \<and> distinct (map (\<lambda>c. RequestHeader c opIDHeader (mem st)) (ctxs st))
       \<and> (\<forall>s :: ('k, 'v) proc. nextOpID s \<noteq> - 1 \<longrightarrow>
            fst (getNextOpID s) = FormatUint (nextOpID s + 1)
            \<and> nextOpID (snd (getNextOpID s)) = nextOpID s + 1
            \<and> nextOpID s < nextOpID s + 1)
       \<and> (\<forall>n < 2 ^ 64.
            fst (draws n (startProc g :: ('k, 'v) proc)) = map (\<lambda>k. FormatUint (of_nat (Suc k))) [0..<n]
            \<and> distinct (fst (draws n (startProc g :: ('k, 'v) proc))))"
proof -
  let ?N = "length (ctxs st)"
  have c: "counted st"
    unfolding assms(3) using counted_start assms(1) by (rule counted_run)
  have "?N \<le> length (ctxs (startProgram g :: ('k, 'v) program)) + length calls"
    unfolding assms(3) by (rule run_ctxs_length)
  then have N: "?N < 2 ^ 64" using assms(2) by (simp add: startProgram_def)
  have 1: "RequestHeader (ctxs st ! j) opIDHeader (mem st) = Some (FormatUint (of_nat (Suc j)))"
    if "j < ?N" for j
    using c that by (simp add: counted_def)
  have 2: "(of_nat (Suc i) :: uint64) < of_nat (Suc j)" if "i < j \<and> j < ?N" for i j
    using that N by (intro of_nat_less_word) auto
  have "map (\<lambda>c. RequestHeader c opIDHeader (mem st)) (ctxs st)
      = map (\<lambda>k. Some (FormatUint (0 + of_nat (Suc k)))) [0..<?N]"
    by (rule nth_equalityI) (simp_all add: 1)
  moreover have "distinct (map (\<lambda>k. Some (FormatUint (0 + of_nat (Suc k)))) [0..<?N])"
    using opid_text_inj [OF N, of 0] by (simp add: distinct_map)
  ultimately have 3: "distinct (map (\<lambda>c. RequestHeader c opIDHeader (mem st)) (ctxs st))"
    by simp
  have 4: "fst (getNextOpID s) = FormatUint (nextOpID s + 1)
            \<and> nextOpID (snd (getNextOpID s)) = nextOpID s + 1
            \<and> nextOpID s < nextOpID s + 1" if "nextOpID s \<noteq> - 1" for s :: "('k, 'v) proc"
    using counter_grows [OF that] by (simp add: getNextOpID_def)
  have 5: "fst (draws n (startProc g :: ('k, 'v) proc)) = map (\<lambda>k. FormatUint (of_nat (Suc k))) [0..<n]
            \<and> distinct (fst (draws n (startProc g :: ('k, 'v) proc)))" if "n < 2 ^ 64" for n
  proof -
    have e: "fst (draws n (startProc g :: ('k, 'v) proc)) = map (\<lambda>k. FormatUint (of_nat (Suc k))) [0..<n]"
      using draws_ids [of n "startProc g :: ('k, 'v) proc"] by (simp add: startProc_def)
    have "inj_on (\<lambda>k. FormatUint (of_nat (Suc k))) {0..<n}"
      using opid_text_inj [OF that, of 0] by (auto simp: inj_on_def)
    then have "distinct (map (\<lambda>k. FormatUint (of_nat (Suc k))) [0..<n])"
      by (simp add: distinct_map)
    with e show ?thesis by simp
  qed
  from 1 2 3 4 5 show ?thesis by blast
qed

theorem op_ids_increase_until_wrap_witness:
  "list_all creates [CallNew ''abc'', CallClone 0 :: (string, string) call]
   \<and> length [CallNew ''abc'', CallClone 0 :: (string, string) call] < 2 ^ 64
   \<and> (0 :: nat) < 1 \<and> 1 < length (ctxs (run [CallNew ''abc'', CallClone 0] exampleProgram))
   \<and> nextOpID exampleProc \<noteq> - 1
   \<and> RequestHeader (ctxs (run [CallNew ''abc'', CallClone 0] exampleProgram) ! 1) opIDHeader
        (mem (run [CallNew ''abc'', CallClone 0] exampleProgram)) = Some (FormatUint 2)
   \<and> (of_nat (Suc 0) :: uint64) < of_nat (Suc 1)
   \<and> nextOpID exampleProc < nextOpID exampleProc + 1
   \<and> distinct (fst (draws 2 exampleProc))"
proof -
  let ?calls = "[CallNew ''abc'', CallClone 0 :: (string, string) call]"
  let ?st = "run ?calls exampleProgram"
  have h1: "list_all creates ?calls" by simp
  have h2: "length ?calls < 2 ^ 64" by simp
  have h3: "?st = run ?calls (startProgram exampleNuid)" by (simp add: exampleProgram_def)
  have h4: "(0 :: nat) < 1 \<and> 1 < length (ctxs ?st)" by (simp add: example_run)
  have h5: "nextOpID exampleProc \<noteq> - 1" by (simp add: exampleProc_def startProc_def)
  have h6: "(2 :: nat) < 2 ^ 64" by simp
  note t = op_ids_increase_until_wrap [OF h1 h2 h3]
  from t h4 have a: "RequestHeader (ctxs ?st ! 1) opIDHeader (mem ?st) = Some (FormatUint (of_nat (Suc 1)))"
    by blast
  from t h4 have b: "(of_nat (Suc 0) :: uint64) < of_nat (Suc 1)" by blast
  from t h5 have c: "nextOpID exampleProc < nextOpID exampleProc + 1" by blast
  from t h6 have d: "distinct (fst (draws 2 (startProc exampleNuid :: (string, string) proc)))" by blast
  from h1 h2 h4 h5 a b c d show ?thesis by (simp add: exampleProc_def)
qed

text \<open>
  Claim C2 as stated fails when the counter wraps: the first draw of a process returns
  \<^verbatim>\<open>"1"\<close>, draw number \<open>2 ^ 64\<close> returns \<^verbatim>\<open>"0"\<close>, a smaller counter value, and the draw after
  that returns \<^verbatim>\<open>"1"\<close> again.
\<close>

theorem wrap_counterexample:
  "fst (draws 1 exampleProc) = [''1'']
   \<and> fst (getNextOpID (snd (draws 18446744073709551615 exampleProc))) = ''0''
   \<and> fst (getNextOpID (snd (draws 18446744073709551616 exampleProc))) = ''1''"
proof -
  have "(2 ^ 64 :: uint64) = 0" by simp
  then have w: "(18446744073709551616 :: uint64) = 0" by simp
  have z: "nextOpID exampleProc = 0" by (simp add: exampleProc_def startProc_def)
  have a: "fst (draws 1 exampleProc) = [''1'']"
    using draws_ids [of 1 exampleProc] by (simp add: z FormatUint_small)
  have b: "fst (getNextOpID (snd (draws 18446744073709551615 exampleProc))) = ''0''"
    using draws_counter [of 18446744073709551615 exampleProc]
    by (simp add: getNextOpID_def z w FormatUint_small)
  have c: "fst (getNextOpID (snd (draws 18446744073709551616 exampleProc))) = ''1''"
    using draws_counter [of 18446744073709551616 exampleProc]
    by (simp add: getNextOpID_def z w FormatUint_small)
  from a b c show ?thesis by simp
qed

text \<open>
  Claim C3, as the code has it. Whatever calls a program makes, every context it holds
  has exactly one \<^verbatim>\<open>_cid\<close> entry, exactly one \<^verbatim>\<open>_opid\<close> entry and exactly one
  \<^verbatim>\<open>_timeout\<close> entry among its request headers: no method removes an entry, and the maps
  handed out are copies. The \<^verbatim>\<open>_timeout\<close> value parses as a non-negative integer as long
  as no call was \<open>SetTimeout\<close> with a negative duration or \<open>AddRequestHeader\<close> on the
  name \<^verbatim>\<open>_timeout\<close>.
\<close>

theorem reserved_headers_stay:
  fixes st :: "('k, 'v) program"
  assumes "st = run calls (startProgram g)" and "c \<in> set (ctxs st)"
  shows "entriesFor cidHeader (strMaps (mem st) ! requestHeaders c) = 1
       \<and> entriesFor opIDHeader (strMaps (mem st) ! requestHeaders c) = 1
       \<and> entriesFor timeoutHeader (strMaps (mem st) ! requestHeaders c) = 1
       \<and> (list_all keepsTimeout calls \<longrightarrow>
            (\<exists>v w. RequestHeader c timeoutHeader (mem st) = Some v \<and> ParseInt v = Inr w \<and> 0 \<le> sint w))"
proof -
  have snd: "sound st" unfolding assms(1) using sound_start by (rule sound_run)
  with assms(2) have k: "reservedKept (strMaps (mem st) ! requestHeaders c)"
    by (simp add: sound_def)
  then have 1: "entriesFor cidHeader (strMaps (mem st) ! requestHeaders c) = 1"
    and 2: "entriesFor opIDHeader (strMaps (mem st) ! requestHeaders c) = 1"
    and 3: "entriesFor timeoutHeader (strMaps (mem st) ! requestHeaders c) = 1"
    by (simp_all add: reservedKept_def entriesFor_one)
  have 4: "\<exists>v w. RequestHeader c timeoutHeader (mem st) = Some v \<and> ParseInt v = Inr w \<and> 0 \<le> sint w"
    if "list_all keepsTimeout calls"
  proof -
    have "timeoutsKept st"
      unfolding assms(1) using sound_start timeoutsKept_start that by (rule timeoutsKept_run)
    with assms(2) have "nonNegativeTimeout (strMaps (mem st) ! requestHeaders c)"
      by (simp add: timeoutsKept_def)
    then show ?thesis
      by (auto simp: nonNegativeTimeout_def RequestHeader_def strMapGet_def
          split: option.splits sum.splits)
  qed
  from 1 2 3 4 show ?thesis by blast
qed

theorem reserved_headers_stay_witness:
  "ctxs (run [CallNew ''abc'', CallClone 0] exampleProgram) ! 1
     \<in> set (ctxs (run [CallNew ''abc'', CallClone 0] exampleProgram))
   \<and> list_all keepsTimeout [CallNew ''abc'', CallClone 0 :: (string, string) call]
   \<and> entriesFor opIDHeader (strMaps (mem (run [CallNew ''abc'', CallClone 0] exampleProgram))
        ! requestHeaders (ctxs (run [CallNew ''abc'', CallClone 0] exampleProgram) ! 1)) = 1
   \<and> (\<exists>v w. RequestHeader (ctxs (run [CallNew ''abc'', CallClone 0] exampleProgram) ! 1) timeoutHeader
               (mem (run [CallNew ''abc'', CallClone 0] exampleProgram)) = Some v
             \<and> ParseInt v = Inr w \<and> 0 \<le> sint w)"
proof -
  let ?calls = "[CallNew ''abc'', CallClone 0 :: (string, string) call]"
  let ?st = "run ?calls exampleProgram"
  have h1: "?st = run ?calls (startProgram exampleNuid)" by (simp add: exampleProgram_def)
  have h2: "ctxs ?st ! 1 \<in> set (ctxs ?st)" by (simp add: example_run)
  have h3: "list_all keepsTimeout ?calls" by simp
  note t = reserved_headers_stay [OF h1 h2]
  from t have a: "entriesFor opIDHeader (strMaps (mem ?st) ! requestHeaders (ctxs ?st ! 1)) = 1"
    by blast
  from t h3 have b: "\<exists>v w. RequestHeader (ctxs ?st ! 1) timeoutHeader (mem ?st) = Some v
      \<and> ParseInt v = Inr w \<and> 0 \<le> sint w" by blast
  from h2 h3 a b show ?thesis by blast
qed

text \<open>
  Claim C3 as stated fails for the value of \<^verbatim>\<open>_timeout\<close>: after
  \<^verbatim>\<open>AddRequestHeader("_timeout", "soon")\<close> the header holds text that does not parse, and
  after \<^verbatim>\<open>SetTimeout(-time.Millisecond)\<close> it holds \<^verbatim>\<open>"-1"\<close>, which parses as a negative
  integer.
\<close>

theorem timeout_header_counterexample:
  "RequestHeader
     (ctxs (run [CallNew ''abc'', CallMutate 0 (DoAddRequestHeader timeoutHeader ''soon'')] exampleProgram) ! 0)
     timeoutHeader
     (mem (run [CallNew ''abc'', CallMutate 0 (DoAddRequestHeader timeoutHeader ''soon'')] exampleProgram))
     = Some ''soon''
   \<and> ParseInt ''soon'' = Inl ErrSyntax
   \<and> RequestHeader
     (ctxs (run [CallNew ''abc'', CallMutate 0 (DoSetTimeout (- Millisecond))] exampleProgram) ! 0)
     timeoutHeader
     (mem (run [CallNew ''abc'', CallMutate 0 (DoSetTimeout (- Millisecond))] exampleProgram))
     = Some ''-1''
   \<and> ParseInt ''-1'' = Inr (- 1) \<and> sint (- 1 :: int64) < 0"
proof -
  have a: "ParseInt ''soon'' = Inl ErrSyntax"
    by (simp add: ParseInt_def ParseUint_def is_digit_def)
  have b: "ParseInt ''-1'' = Inr (- 1)"
    using ParseInt_FormatInt [of "- 1"] by (simp add: FormatInt_minus_1)
  show ?thesis
    by (simp only: example_corrupted_run example_negative_run)
       (simp add: RequestHeader_def strMapGet_def timeoutHeader_def a b)
qed

text \<open>
  Claim C4. For every context whose \<^verbatim>\<open>_timeout\<close> request header is missing, or holds a
  string that is not an integer in decimal (or that \<^verbatim>\<open>ParseInt\<close> rejects for any reason),
  \<open>Timeout\<close> returns the default of 5000 milliseconds. \<open>Timeout\<close> has no error result and
  no failing branch: it is a total function into durations.
\<close>

theorem Timeout_falls_back_to_default:
  assumes "RequestHeader c timeoutHeader s = None \<or>
           (\<exists>v. RequestHeader c timeoutHeader s = Some v \<and> (\<not> signed_decimal v \<or> isl (ParseInt v)))"
  shows "Timeout c s = defaultTimeout \<and> defaultTimeout = 5000 * Millisecond"
proof -
  have d: "defaultTimeout = 5000 * Millisecond"
    by (simp add: defaultTimeout_def Second_def Millisecond_def)
  from assms have "isl (ParseInt (orEmpty (RequestHeader c timeoutHeader s)))"
  proof
    assume "RequestHeader c timeoutHeader s = None"
    then show ?thesis by (simp add: orEmpty_def ParseInt_def)
  next
    assume "\<exists>v. RequestHeader c timeoutHeader s = Some v \<and> (\<not> signed_decimal v \<or> isl (ParseInt v))"
    then show ?thesis using ParseInt_needs_signed_decimal by (auto simp: orEmpty_def)
  qed
  then have "Timeout c s = defaultTimeout"
    by (cases "ParseInt (orEmpty (RequestHeader c timeoutHeader s))")
       (simp_all add: Timeout_def RequestHeader_def)
  with d show ?thesis by simp
qed

theorem Timeout_falls_back_to_default_witness:
  "RequestHeader exampleCtx timeoutHeader
     (AddRequestHeader exampleCtx timeoutHeader ''soon'' exampleMem) = Some ''soon''
   \<and> \<not> signed_decimal ''soon''
   \<and> Timeout exampleCtx (AddRequestHeader exampleCtx timeoutHeader ''soon'' exampleMem)
       = defaultTimeout
   \<and> RequestHeader \<lparr>requestHeaders = 1, responseHeaders = 1, ephemeralProperties = 0\<rparr>
        timeoutHeader exampleMem = None
   \<and> Timeout \<lparr>requestHeaders = 1, responseHeaders = 1, ephemeralProperties = 0\<rparr> exampleMem
       = defaultTimeout"
proof -
  let ?s = "AddRequestHeader exampleCtx timeoutHeader ''soon'' exampleMem"
  let ?bare = "\<lparr>requestHeaders = 1, responseHeaders = 1, ephemeralProperties = 0\<rparr>"
  have h1: "RequestHeader exampleCtx timeoutHeader ?s = Some ''soon''" by (rule exampleCorrupted)
  have h2: "\<not> signed_decimal ''soon''" by (rule not_signed_decimal_soon)
  have h3: "RequestHeader ?bare timeoutHeader exampleMem = None"
    by (simp add: RequestHeader_def strMapGet_def exampleMem_eq)
  from Timeout_falls_back_to_default [of exampleCtx ?s] h1 h2
  have a: "Timeout exampleCtx ?s = defaultTimeout" by simp
  from Timeout_falls_back_to_default [of ?bare exampleMem] h3
  have b: "Timeout ?bare exampleMem = defaultTimeout" by simp
  from h1 h2 h3 a b show ?thesis by simp
qed

text \<open>
  Claim C5. \<open>getOpID\<close> returns an error exactly when the \<^verbatim>\<open>_opid\<close> request header is
  absent or its value is not a non-negative integer that \<^verbatim>\<open>ParseUint\<close> reads: a
  non-empty string of decimal digits whose value fits 64 bits. Otherwise it returns the
  number the header denotes.
\<close>

theorem getOpID_fails_iff_header_bad:
  "getOpID c s =
     (case RequestHeader c opIDHeader s of
        None \<Rightarrow> Inl (MissingHeader opIDHeader)
      | Some v \<Rightarrow> if decimal v \<and> dec_val 0 v \<le> maxUint64
                  then Inr (of_nat (dec_val 0 v)) else Inl (OpIDNotNonNegative v))
   \<and> (isl (getOpID c s) \<longleftrightarrow>
        RequestHeader c opIDHeader s = None \<or>
        (\<exists>v. RequestHeader c opIDHeader s = Some v \<and> \<not> (decimal v \<and> dec_val 0 v \<le> maxUint64)))
   \<and> (\<forall>v. RequestHeader c opIDHeader s = Some v \<and> decimal v \<and> dec_val 0 v \<le> maxUint64 \<longrightarrow>
          getOpID c s = Inr (of_nat (dec_val 0 v)) \<and> unat (of_nat (dec_val 0 v) :: uint64) = dec_val 0 v)"
proof -
  have u: "unat (of_nat n :: uint64) = n" if "n \<le> maxUint64" for n
    using that by (simp add: unsigned_of_nat take_bit_nat_eq_self maxUint64_def)
  have p: "ParseUint v = (if decimal v \<and> dec_val 0 v \<le> maxUint64
                          then Inr (of_nat (dec_val 0 v)) else ParseUint v)" for v
    using ParseUint_Inr [of v "of_nat (dec_val 0 v)"] by (simp add: decimal_def list_all_iff)
  have q: "isl (ParseUint v)" if "\<not> (decimal v \<and> dec_val 0 v \<le> maxUint64)" for v
    using that ParseUint_Inr [of v] by (cases "ParseUint v") (auto simp: decimal_def list_all_iff)
  have eq: "getOpID c s =
     (case RequestHeader c opIDHeader s of
        None \<Rightarrow> Inl (MissingHeader opIDHeader)
      | Some v \<Rightarrow> if decimal v \<and> dec_val 0 v \<le> maxUint64
                  then Inr (of_nat (dec_val 0 v)) else Inl (OpIDNotNonNegative v))"
  proof (cases "RequestHeader c opIDHeader s")
    case None
    then show ?thesis by (simp add: getOpID_def)
  next
    case (Some v)
    show ?thesis
    proof (cases "decimal v \<and> dec_val 0 v \<le> maxUint64")
      case True
      then have "ParseUint v = Inr (of_nat (dec_val 0 v))" using p [of v] by simp
      with Some True show ?thesis by (simp add: getOpID_def)
    next
      case False
      from q [OF False] obtain e where "ParseUint v = Inl e" by (cases "ParseUint v") auto
      with Some False show ?thesis by (simp add: getOpID_def)
    qed
  qed
  show ?thesis
    apply (intro conjI)
      apply (rule eq)
     apply (simp only: eq)
     apply (cases "RequestHeader c opIDHeader s"; simp)
    apply (simp only: eq)
    apply (auto simp: u)
    done
qed

theorem getOpID_fails_iff_header_bad_witness:
  "RequestHeader exampleCtx opIDHeader exampleMem = Some ''1''
   \<and> decimal ''1'' \<and> dec_val 0 ''1'' \<le> maxUint64
   \<and> getOpID exampleCtx exampleMem = Inr 1"
  using getOpID_fails_iff_header_bad
    [of "exampleCtx" "exampleMem :: (string, string) proc"]
    example_opid decimal_1
  by (simp add: maxUint64_def)

text \<open>
  Claim C6. \<open>SetTimeout\<close> of 7500 milliseconds followed by \<open>Timeout\<close> on the same
  context returns exactly 7500 milliseconds, and \<open>Timeout\<close> on a context fresh from
  \<open>NewFContext\<close> returns exactly 5000 milliseconds.
\<close>

theorem Timeout_after_SetTimeout_7500:
  "(requestHeaders c < length (strMaps s) \<longrightarrow>
      Timeout c (SetTimeout c (7500 * Millisecond) s) = 7500 * Millisecond)
   \<and> Timeout (fst (NewFContext cid s)) (snd (NewFContext cid s)) = 5000 * Millisecond"
proof -
  have "Millisecond * quo (7500 * Millisecond) Millisecond = 7500 * Millisecond"
    by (simp add: quo_def Millisecond_def)
  moreover have "defaultTimeout = 5000 * Millisecond"
    by (simp add: defaultTimeout_def Second_def Millisecond_def)
  ultimately show ?thesis
    by (simp add: Timeout_SetTimeout Timeout_NewFContext)
qed

theorem Timeout_after_SetTimeout_7500_witness:
  "requestHeaders exampleCtx < length (strMaps exampleMem)
   \<and> Timeout exampleCtx
       (SetTimeout exampleCtx (7500 * Millisecond) exampleMem)
     = 7500 * Millisecond"
  using Timeout_after_SetTimeout_7500
    [of "exampleCtx" "exampleMem :: (string, string) proc"]
  by (simp add: exampleCtx_eq exampleMem_eq)

text \<open>
  Claim C7. Constructed with a non-empty correlation id, the context's \<open>CorrelationID\<close>
  is that id; constructed with the empty string, it is the id drawn from the generator,
  which is non-empty whenever the generator (\<^verbatim>\<open>nuid.Next\<close>) hands out a non-empty id.
\<close>

theorem NewFContext_correlation_id:
  "(cid \<noteq> [] \<longrightarrow> CorrelationID (fst (NewFContext cid s)) (snd (NewFContext cid s)) = cid)
   \<and> CorrelationID (fst (NewFContext [] s)) (snd (NewFContext [] s)) = fst (generateCorrelationID s)
   \<and> (fst (generateCorrelationID s) \<noteq> [] \<longrightarrow>
        CorrelationID (fst (NewFContext [] s)) (snd (NewFContext [] s)) \<noteq> [])"
  by (simp add: NewFContext_eq CorrelationID_def strMapGet_def orEmpty_def nth_append
      generateCorrelationID_def)

theorem NewFContext_correlation_id_witness:
  "''abc'' \<noteq> [] \<and> fst (generateCorrelationID exampleProc) \<noteq> []
   \<and> CorrelationID exampleCtx exampleMem = ''abc''
   \<and> CorrelationID (fst (NewFContext [] exampleProc)) (snd (NewFContext [] exampleProc)) = ''nuid0''"
proof -
  have g: "fst (generateCorrelationID exampleProc) = ''nuid0''"
    by (simp add: generateCorrelationID_def exampleProc_def startProc_def exampleNuid_def
        digits10.simps digit_char_def)
  from NewFContext_correlation_id [of "''abc''" "exampleProc"]
  have a: "CorrelationID exampleCtx exampleMem = ''abc''"
    by (simp add: exampleCtx_def exampleMem_def)
  from NewFContext_correlation_id [of "[]" "exampleProc"] g
  have b: "CorrelationID (fst (NewFContext [] exampleProc)) (snd (NewFContext [] exampleProc)) = ''nuid0''"
    by simp
  from g a b show ?thesis by simp
qed

text \<open>
  Claim C8. Each of \<open>RequestHeaders\<close>, \<open>ResponseHeaders\<close> and \<open>EphemeralProperties\<close>
  returns a map with the entries of the context's map. The call leaves every context as
  it was; whatever is written to the returned map afterwards, every context reads as
  before; and whichever writing method is called on a context afterwards, the returned
  map stays as it was (\<open>c'\<close> is any context of the process, \<open>c\<close> itself among them).
  The same holds at any later time: in every state a program reaches, writing a map an
  accessor has returned changes no context the program holds, and a writing method
  called on a context changes no returned map.
\<close>

theorem accessors_return_copies:
  fixes st :: "('k, 'v) program"
  assumes "allocated c s" and "allocated c' s"
    and "st = run calls (startProgram g)" and "d \<in> set (ctxs st)"
  shows "(case RequestHeaders c s of (h, s') \<Rightarrow>
            map_of (strMaps s' ! h) = map_of (strMaps s ! requestHeaders c)
            \<and> contents c' s' = contents c' s
            \<and> (\<forall>m. contents c' (writeStrMap h m s') = contents c' s')
            \<and> (\<forall>mu. strMaps (mutate mu c' s') ! h = strMaps s' ! h))
       \<and> (case ResponseHeaders c s of (h, s') \<Rightarrow>
            map_of (strMaps s' ! h) = map_of (strMaps s ! responseHeaders c)
            \<and> contents c' s' = contents c' s
            \<and> (\<forall>m. contents c' (writeStrMap h m s') = contents c' s')
            \<and> (\<forall>mu. strMaps (mutate mu c' s') ! h = strMaps s' ! h))
       \<and> (case EphemeralProperties c s of (p, s') \<Rightarrow>
            map_of (propMaps s' ! p) = map_of (propMaps s ! ephemeralProperties c)
            \<and> contents c' s' = contents c' s
            \<and> (\<forall>m. contents c' (writePropMap p m s') = contents c' s')
            \<and> (\<forall>mu. propMaps (mutate mu c' s') ! p = propMaps s' ! p))
       \<and> (\<forall>h \<in> set (headerCopies st).
            (\<forall>m. contents d (writeStrMap h m (mem st)) = contents d (mem st))
            \<and> (\<forall>mu. strMaps (mutate mu d (mem st)) ! h = strMaps (mem st) ! h))
       \<and> (\<forall>p \<in> set (propertyCopies st).
            (\<forall>m. contents d (writePropMap p m (mem st)) = contents d (mem st))
            \<and> (\<forall>mu. propMaps (mutate mu d (mem st)) ! p = propMaps (mem st) ! p))"
  using copies_are_fresh [OF assms(1,2)] returned_maps_apart [OF assms(3,4)]
  by (intro conjI) simp_all

theorem accessors_return_copies_witness:
  "allocated exampleCtx exampleMem
   \<and> ctxs (run [CallNew ''abc'', CallRequestHeaders 0] exampleProgram) ! 0
       \<in> set (ctxs (run [CallNew ''abc'', CallRequestHeaders 0] exampleProgram))
   \<and> 2 \<in> set (headerCopies (run [CallNew ''abc'', CallRequestHeaders 0] exampleProgram))
   \<and> contents exampleCtx (writeStrMap (fst (RequestHeaders exampleCtx exampleMem)) []
        (snd (RequestHeaders exampleCtx exampleMem))) = contents exampleCtx exampleMem
   \<and> strMaps (AddRequestHeader exampleCtx ''x'' ''1'' (snd (RequestHeaders exampleCtx exampleMem)))
        ! fst (RequestHeaders exampleCtx exampleMem)
      = strMaps (snd (RequestHeaders exampleCtx exampleMem)) ! fst (RequestHeaders exampleCtx exampleMem)
   \<and> contents (ctxs (run [CallNew ''abc'', CallRequestHeaders 0] exampleProgram) ! 0)
        (writeStrMap 2 [] (mem (run [CallNew ''abc'', CallRequestHeaders 0] exampleProgram)))
      = contents (ctxs (run [CallNew ''abc'', CallRequestHeaders 0] exampleProgram) ! 0)
          (mem (run [CallNew ''abc'', CallRequestHeaders 0] exampleProgram))"
proof -
  let ?calls = "[CallNew ''abc'', CallRequestHeaders 0 :: (string, string) call]"
  let ?st = "run ?calls exampleProgram"
  have h: "allocated exampleCtx exampleMem" by (rule example_allocated)
  have h3: "?st = run ?calls (startProgram exampleNuid)" by (simp add: exampleProgram_def)
  have h4: "ctxs ?st ! 0 \<in> set (ctxs ?st)" by (simp add: example_copy_run)
  have h5: "2 \<in> set (headerCopies ?st)" by (simp add: example_copy_run)
  note t = accessors_return_copies [OF h h h3 h4, unfolded split_beta]
  from t have a: "contents exampleCtx (writeStrMap (fst (RequestHeaders exampleCtx exampleMem)) []
        (snd (RequestHeaders exampleCtx exampleMem))) = contents exampleCtx exampleMem"
    by metis
  from t have "strMaps (mutate (DoAddRequestHeader ''x'' ''1'') exampleCtx (snd (RequestHeaders exampleCtx exampleMem)))
        ! fst (RequestHeaders exampleCtx exampleMem)
      = strMaps (snd (RequestHeaders exampleCtx exampleMem)) ! fst (RequestHeaders exampleCtx exampleMem)"
    by blast
  then have b: "strMaps (AddRequestHeader exampleCtx ''x'' ''1'' (snd (RequestHeaders exampleCtx exampleMem)))
        ! fst (RequestHeaders exampleCtx exampleMem)
      = strMaps (snd (RequestHeaders exampleCtx exampleMem)) ! fst (RequestHeaders exampleCtx exampleMem)"
    by simp
  from t h5 have c: "contents (ctxs ?st ! 0) (writeStrMap 2 [] (mem ?st)) = contents (ctxs ?st ! 0) (mem ?st)"
    by blast
  from h h4 h5 a b c show ?thesis by blast
qed

text \<open>
  Claim C9. \<open>AddEphemeralProperty\<close> writes no header map: the store of header maps is
  the same after the call, so the request headers and the response headers of the
  context (and of every other context) read as before.
\<close>

theorem AddEphemeralProperty_leaves_headers:
  "strMaps (AddEphemeralProperty c key val s) = strMaps s
   \<and> RequestHeader c' name (AddEphemeralProperty c key val s) = RequestHeader c' name s
   \<and> ResponseHeader c' name (AddEphemeralProperty c key val s) = ResponseHeader c' name s"
  by (simp add: AddEphemeralProperty_def propMapPut_def RequestHeader_def ResponseHeader_def
      strMapGet_def)

text \<open>
  Claim C10. For every duration \<open>d\<close>, negative or not, \<open>SetTimeout\<close> stores the decimal
  text of \<open>d\<close> divided by a millisecond with truncation towards zero, that text parses
  back to the same number, and \<open>Timeout\<close> returns it times a millisecond: the multiple
  of a millisecond between zero and \<open>d\<close> that is less than a millisecond away from
  \<open>d\<close>. A duration of minus one millisecond or below is stored with a minus sign and
  comes back negative, not as the default; a duration of less than a millisecond either
  side of zero comes back as zero.
\<close>

theorem SetTimeout_then_Timeout_truncates:
  assumes "requestHeaders c < length (strMaps s)"
  shows "RequestHeader c timeoutHeader (SetTimeout c d s) = Some (FormatInt (quo d Millisecond))
         \<and> ParseInt (FormatInt (quo d Millisecond)) = Inr (quo d Millisecond)
         \<and> sint (quo d Millisecond) = sint d sdiv 1000000
         \<and> Timeout c (SetTimeout c d s) = Millisecond * quo d Millisecond
         \<and> sint (Timeout c (SetTimeout c d s)) = sint d sdiv 1000000 * 1000000
         \<and> towards_zero (sint (Timeout c (SetTimeout c d s))) (sint d)
         \<and> \<bar>sint d - sint (Timeout c (SetTimeout c d s))\<bar> < 1000000
         \<and> (sint d \<le> - 1000000 \<longrightarrow>
              hd (FormatInt (quo d Millisecond)) = CHR ''-''
              \<and> sint (Timeout c (SetTimeout c d s)) < 0
              \<and> Timeout c (SetTimeout c d s) \<noteq> defaultTimeout)
         \<and> (\<bar>sint d\<bar> < 1000000 \<longrightarrow> Timeout c (SetTimeout c d s) = 0)"
proof -
  let ?t = "Timeout c (SetTimeout c d s)"
  have t: "?t = Millisecond * quo d Millisecond"
    using assms by (rule Timeout_SetTimeout)
  have st: "sint ?t = sint d sdiv 1000000 * 1000000"
    by (simp only: t sint_Millisecond_times_quo)
  have h: "RequestHeader c timeoutHeader (SetTimeout c d s) = Some (FormatInt (quo d Millisecond))"
    using assms by (simp add: RequestHeader_def SetTimeout_def strMapGet_strMapPut)
  have tz: "towards_zero (sint ?t) (sint d)"
    by (simp only: st sdiv_million_towards_zero)
  have near: "\<bar>sint d - sint ?t\<bar> < 1000000"
  proof (cases "0 \<le> sint d")
    case True
    have "sint d - sint d div 1000000 * 1000000 = sint d mod 1000000"
      by (simp add: minus_div_mult_eq_mod)
    moreover have "0 \<le> sint d mod 1000000" "sint d mod 1000000 < 1000000" by simp_all
    ultimately show ?thesis using True by (simp add: st sdiv_pos_divisor)
  next
    case False
    have "- sint d - (- sint d) div 1000000 * 1000000 = (- sint d) mod 1000000"
      by (simp add: minus_div_mult_eq_mod)
    moreover have "0 \<le> (- sint d) mod 1000000" "(- sint d) mod 1000000 < 1000000" by simp_all
    ultimately show ?thesis using False by (simp add: st sdiv_pos_divisor)
  qed
  have neg: "hd (FormatInt (quo d Millisecond)) = CHR ''-'' \<and> sint ?t < 0 \<and> ?t \<noteq> defaultTimeout"
    if le: "sint d \<le> - 1000000"
  proof -
    have "1 \<le> (- sint d) div 1000000"
      using le by (simp add: pos_imp_zdiv_pos_iff)
    then have q: "sint d sdiv 1000000 < 0" using le by (simp add: sdiv_pos_divisor)
    then have a: "sint (quo d Millisecond) < 0" by (simp add: sint_quo_Millisecond)
    have b: "sint ?t < 0" using q by (simp add: st mult_less_0_iff)
    have "sint defaultTimeout = 5000000000"
      by (simp add: defaultTimeout_def Second_def Millisecond_def)
    with b have "?t \<noteq> defaultTimeout" by auto
    with a b show ?thesis by (simp add: FormatInt_def)
  qed
  have small: "?t = 0" if "\<bar>sint d\<bar> < 1000000"
  proof -
    from that have "sint d sdiv 1000000 = 0"
      by (cases "0 \<le> sint d") (simp_all add: sdiv_pos_divisor)
    then have "quo d Millisecond = 0" by (simp add: quo_def sint_Millisecond)
    then show ?thesis by (simp add: t)
  qed
  show ?thesis
    using t st h tz near neg small by (simp add: ParseInt_FormatInt sint_quo_Millisecond)
qed

theorem SetTimeout_then_Timeout_truncates_witness:
  "requestHeaders exampleCtx < length (strMaps exampleMem)
   \<and> sint (- 7500500000 :: Duration) \<le> - 1000000
   \<and> sint (Timeout exampleCtx (SetTimeout exampleCtx (- 7500500000) exampleMem)) = - 7500000000
   \<and> sint (Timeout exampleCtx (SetTimeout exampleCtx (- 7500500000) exampleMem)) < 0
   \<and> \<bar>sint (- 500000 :: Duration)\<bar> < 1000000
   \<and> Timeout exampleCtx (SetTimeout exampleCtx (- 500000) exampleMem) = 0"
proof -
  have h: "requestHeaders exampleCtx < length (strMaps exampleMem)"
    by (simp add: exampleCtx_eq exampleMem_eq)
  have d: "sint (- 7500500000 :: Duration) \<le> - 1000000" by simp
  have e: "\<bar>sint (- 500000 :: Duration)\<bar> < 1000000" by simp
  note t = SetTimeout_then_Timeout_truncates [OF h, of "- 7500500000"]
  from t have "sint (Timeout exampleCtx (SetTimeout exampleCtx (- 7500500000) exampleMem))
      = sint (- 7500500000 :: Duration) sdiv 1000000 * 1000000" by blast
  then have v: "sint (Timeout exampleCtx (SetTimeout exampleCtx (- 7500500000) exampleMem)) = - 7500000000"
    by simp
  from t d have n: "sint (Timeout exampleCtx (SetTimeout exampleCtx (- 7500500000) exampleMem)) < 0"
    by blast
  from SetTimeout_then_Timeout_truncates [OF h, of "- 500000"] e
  have z: "Timeout exampleCtx (SetTimeout exampleCtx (- 500000) exampleMem) = 0" by blast
  from h d e v n z show ?thesis by blast
qed

end
